theory Spec2Isabelle
  imports Complex_Main "HOL-Library.Sublist"
begin

section \<open>The Research tutorial notebook (tutorials/IV.Research.ipynb)\<close>

text \<open>
  The notebook wires a hyperparameter sweep together out of library calls. What it computes
  itself is embedded here cell by cell: the dataset paths (cell 8), the model configuration
  dictionary (cell 10), the training constants (cells 11, 18, 19), the helper functions
  \<open>center_flip\<close> (cell 12), \<open>make_data\<close> (cell 14), \<open>aggregate_crops\<close> (cell 16),
  \<open>get_trainable_variables\<close> and \<open>calc_metrics\<close> (cell 20), and the arguments of the
  final \<open>mr.run\<close> call (cell 22).

  Arrays of floats are lists of reals: arithmetic is exact, rounding is not modelled.
  Exceptions are values of type \<open>error\<close>, carried in the left summand of a sum type.
\<close>

datatype error = ZeroDivisionError | ValueError | IndexError | KeyError | External string

subsection \<open>Cell 8: dataset paths\<close>

text \<open>
  \<open>os.path.join\<close> on a POSIX system, for two components: an absolute second component
  replaces the first, otherwise the two are joined with one separator.
\<close>

definition os_path_join :: "string \<Rightarrow> string \<Rightarrow> string" where
  "os_path_join a b =
     (if b \<noteq> [] \<and> hd b = CHR ''/'' then b
      else if a = [] \<or> last a = CHR ''/'' then a @ b
      else a @ ''/'' @ b)"

definition PATH :: string where
  "PATH = ''/notebooks/data/ECG/training2017''"

definition SIGNALS_MASK :: string where
  "SIGNALS_MASK = os_path_join PATH ''A*.hea''"

definition LABELS_PATH :: string where
  "LABELS_PATH = os_path_join PATH ''REFERENCE.csv''"

subsection \<open>Cell 10: the model configuration\<close>

text \<open>
  The values a configuration dictionary holds. Keys of a Python dictionary may be any
  hashable value, so keys are values as well. \<open>F\<close> carries the text of the lambda it
  wraps, \<open>C\<close> the name of the grid parameter it stands for, \<open>ConfigProto\<close> the value of
  \<open>allow_soft_placement\<close>.
\<close>

datatype pyval =
    Str string
  | PyList "pyval list"
  | Dict "(pyval \<times> pyval) list"
  | F string
  | C string
  | ConfigProto bool

fun is_str :: "pyval \<Rightarrow> bool" where
  "is_str (Str s) = True"
| "is_str v = False"

definition model_config :: "(pyval \<times> pyval) list" where
  "model_config =
     [(Str ''inputs'',
         Dict [(Str ''signals'',
                  Dict [(Str ''shape'', F ''lambda batch: batch.signal[0].shape[1:]'')]),
               (Str ''labels'',
                  Dict [(Str ''classes'', PyList [Str ''A'', Str ''NO'']),
                        (Str ''transform'', Str ''ohe''),
                        (Str ''name'', Str ''targets'')])]),
      (Str ''initial_block/inputs'', Str ''signals''),
      (Str ''loss'', Str ''ce''),
      (Str ''input_block/filters'', C ''input_filters''),
      (Str ''body/block/layout'', C ''layout''),
      (Str ''body/filters'', C ''filters''),
      (Str ''body/num_blocks'', C ''blocks''),
      (Str ''session/config'', ConfigProto True),
      (Str ''device'', C ''device''),
      (Str ''optimizer'', Str ''Adam'')]"

subsection \<open>Cells 11 and 18: training constants and the execution frequency\<close>

definition BATCH_SIZE :: int where "BATCH_SIZE = 32"
definition EPOCHS :: int where "EPOCHS = 300"
definition TEST_EACH_EPOCH :: int where "TEST_EACH_EPOCH = 20"

text \<open>
  \<open>TRAIN_SIZE = len(eds.train)\<close> depends on the dataset on disk, so everything computed
  from it takes it as an argument. Python's \<open>//\<close> on integers is floor division, as is
  \<open>div\<close> on \<open>int\<close>; \<open>a // b * c\<close> groups as \<open>(a // b) * c\<close>.
\<close>

definition ITERATIONS :: "int \<Rightarrow> int" where
  "ITERATIONS TRAIN_SIZE = ((TRAIN_SIZE div BATCH_SIZE) + 1) * EPOCHS"

definition TEST_EXEC_FOR :: "int \<Rightarrow> int" where
  "TEST_EXEC_FOR TRAIN_SIZE = ITERATIONS TRAIN_SIZE div EPOCHS * TEST_EACH_EPOCH"

text \<open>
  \<open>'{}'.format(n)\<close> for an integer \<open>n\<close> is \<open>str(n)\<close>: a minus sign for a negative
  number, then the decimal digits, most significant first, with no leading zero.
\<close>

definition digit_char :: "nat \<Rightarrow> char" where
  "digit_char d = char_of (48 + d)"

fun str_nat :: "nat \<Rightarrow> string" where
  "str_nat n = (if n < 10 then [digit_char n] else str_nat (n div 10) @ [digit_char (n mod 10)])"

declare str_nat.simps [simp del]

definition str_int :: "int \<Rightarrow> string" where
  "str_int i = (if i < 0 then CHR ''-'' # str_nat (nat (- i)) else str_nat (nat i))"

definition STR_EXEC :: "int \<Rightarrow> string" where
  "STR_EXEC TRAIN_SIZE = ''%'' @ str_int (TEST_EXEC_FOR TRAIN_SIZE)"

text \<open>Reading a string of decimal digits back, to say what a decimal representation is.\<close>

definition is_digit :: "char \<Rightarrow> bool" where
  "is_digit c = (48 \<le> (of_char c :: nat) \<and> (of_char c :: nat) \<le> 57)"

definition digits_value :: "string \<Rightarrow> nat" where
  "digits_value s = foldl (\<lambda>acc c. acc * 10 + (of_char c - 48)) 0 s"

subsection \<open>Cells 19 and 22: the arguments of the run call\<close>




subsection \<open>The calls of the notebook that pass keyword arguments\<close>



subsection \<open>Cell 12: \<open>center_flip\<close>\<close>

text \<open>
  \<open>np.random.choice(a)\<close> returns one element of \<open>a\<close>; the argument \<open>r\<close> is the
  random draw, and every element can be drawn.
\<close>

definition np_random_choice :: "'a list \<Rightarrow> nat \<Rightarrow> 'a" where
  "np_random_choice a r = a ! (r mod length a)"
text \<open>
  \<open>np.mean\<close> of a one-dimensional array inside a function compiled by \<open>njit\<close>: the sum
  of the elements divided by the size. The notebook keeps numba's default error model, in
  which a division by zero raises \<open>ZeroDivisionError\<close>, so the mean of an empty array is
  an error. (What happens there depends on the version of numba, and interpreted numpy
  gives \<open>nan\<close>, with a warning; in no reading does an empty array have a mean that is a
  number.)
\<close>

definition np_mean :: "real list \<Rightarrow> error + real" where
  "np_mean a =
     (if length a = 0 then Inl ZeroDivisionError else Inr (sum_list a / real (length a)))"

text \<open>
  \<open>center_flip\<close> is applied to one channel at a time (\<open>apply_to_each_channel\<close>), a
  one-dimensional array. The scalar mean is subtracted from every sample and the
  difference is multiplied by the sign drawn.
\<close>

definition center_flip :: "nat \<Rightarrow> real list \<Rightarrow> error + real list" where
  "center_flip r signal =
     (let s = np_random_choice [1, - 1 :: int] r in
      case np_mean signal of
        Inl e \<Rightarrow> Inl e
      | Inr m \<Rightarrow> Inr (map (\<lambda>x. real_of_int s * (x - m)) signal))"

subsection \<open>Arrays of any dimension\<close>

text \<open>
  A numpy array as the list of its elements along the first axis, a scalar at the leaves.
  An array without elements has shape \<open>(0,)\<close> here: what further dimensions an empty
  array has is not represented.
\<close>

datatype ndarray = Scalar real | Arr "ndarray list"

fun shape :: "ndarray \<Rightarrow> nat list" where
  "shape (Scalar x) = []"
| "shape (Arr []) = [0]"
| "shape (Arr (x # xs)) = Suc (length xs) # shape x"

text \<open>
  \<open>np.array\<close> of a list of arrays stacks them along a new first axis. They must all have
  the same shape: current numpy raises \<open>ValueError\<close> (inhomogeneous shape) otherwise.
\<close>

definition np_array :: "ndarray list \<Rightarrow> error + ndarray" where
  "np_array xs =
     (if list_all (\<lambda>x. shape x = shape (hd xs)) xs then Inr (Arr xs) else Inl ValueError)"

text \<open>A one-dimensional array of floats as an array.\<close>

definition as_array :: "real list \<Rightarrow> ndarray" where
  "as_array c = Arr (map Scalar c)"

subsection \<open>Cell 14: \<open>make_data\<close>\<close>

text \<open>
  A batch holds one array per signal, whose first axis runs over the crops (segments) of
  the signal, and an array of targets. A signal is given by the list of its segments, so
  that \<open>signal.shape[0]\<close> is the length of the list; a segment is an array of any shape.
\<close>

record 'lab batch =
  signal :: "ndarray list list"
  target :: "'lab list"

record 'lab feed =
  signals :: ndarray
  labels :: "'lab list"

record 'lab model_args =
  feed_dict :: "'lab feed"

text \<open>
  \<open>np.repeat(a, repeats, axis=0)\<close> with a list of counts: a single count is broadcast
  to every element; otherwise there must be one count per element, and element \<open>i\<close> is
  repeated \<open>repeats[i]\<close> times. The counts here are lengths, hence never negative.
\<close>

definition np_repeat :: "'a list \<Rightarrow> nat list \<Rightarrow> error + 'a list" where
  "np_repeat a repeats =
     (if length repeats = 1 then Inr (concat (map (replicate (hd repeats)) a))
      else if length a \<noteq> length repeats then Inl ValueError
      else Inr (concat (map (\<lambda>(x, n). replicate n x) (zip a repeats))))"

text \<open>
  The three statements of \<open>make_data\<close> in their order: the counts, the array of all
  segments, the repeated targets.
\<close>

definition make_data :: "'lab batch \<Rightarrow> error + 'lab model_args" where
  "make_data b =
     (let reps = map length (signal b) in
      case np_array (concat (signal b)) of
        Inl e \<Rightarrow> Inl e
      | Inr segs \<Rightarrow>
          (case np_repeat (target b) reps of
             Inl e \<Rightarrow> Inl e
           | Inr targets \<Rightarrow> Inr \<lparr>feed_dict = \<lparr>signals = segs, labels = targets\<rparr>\<rparr>))"

subsection \<open>Cell 16: \<open>aggregate_crops\<close>\<close>

text \<open>
  A two-dimensional array: its number of columns (kept even when there is no row) and its
  rows. It is well formed when every row has that many entries.
\<close>

record arr2d =
  ncols :: nat
  rows :: "real list list"

definition wf_arr :: "arr2d \<Rightarrow> bool" where
  "wf_arr a = list_all (\<lambda>r. length r = ncols a) (rows a)"

text \<open>The numpy operations of the softmax branch, along axis 1 with \<open>keepdims\<close>.\<close>

definition np_max_axis1 :: "arr2d \<Rightarrow> error + real list" where
  "np_max_axis1 a =
     (if ncols a = 0 then Inl ValueError else Inr (map (\<lambda>r. fold max (tl r) (hd r)) (rows a)))"

definition np_sum_axis1 :: "arr2d \<Rightarrow> real list" where
  "np_sum_axis1 a = map sum_list (rows a)"

definition np_sub_col :: "arr2d \<Rightarrow> real list \<Rightarrow> arr2d" where
  "np_sub_col a col = a\<lparr>rows := map (\<lambda>(r, c). map (\<lambda>x. x - c) r) (zip (rows a) col)\<rparr>"

definition np_div_col :: "arr2d \<Rightarrow> real list \<Rightarrow> arr2d" where
  "np_div_col a col = a\<lparr>rows := map (\<lambda>(r, c). map (\<lambda>x. x / c) r) (zip (rows a) col)\<rparr>"

definition np_exp :: "arr2d \<Rightarrow> arr2d" where
  "np_exp a = a\<lparr>rows := map (map exp) (rows a)\<rparr>"
text \<open>
  The three statements under \<open>if predictions\<close>. The first updates the caller's array in
  place; only the value the function goes on with is modelled. The arithmetic is that of
  the reals: in floating point \<open>np.exp\<close> of a very negative number is \<open>0.0\<close> and a row
  need not add up to exactly \<open>1\<close>.
\<close>

definition softmax :: "arr2d \<Rightarrow> error + arr2d" where
  "softmax arr =
     (case np_max_axis1 arr of
        Inl e \<Rightarrow> Inl e
      | Inr mx \<Rightarrow>
          (let arr1 = np_sub_col arr mx;
               arr_exp = np_exp arr1
           in Inr (np_div_col arr_exp (np_sum_axis1 arr_exp))))"

text \<open>\<open>np.cumsum\<close> of a list of integers.\<close>

fun cumsum_from :: "int \<Rightarrow> int list \<Rightarrow> int list" where
  "cumsum_from acc [] = []"
| "cumsum_from acc (x # xs) = (acc + x) # cumsum_from (acc + x) xs"

definition np_cumsum :: "int list \<Rightarrow> int list" where
  "np_cumsum xs = cumsum_from 0 xs"

text \<open>
  A Python slice \<open>xs[st:en]\<close>: a negative bound counts from the end, and both bounds are
  clipped to the list.
\<close>

definition py_slice :: "'a list \<Rightarrow> int \<Rightarrow> int \<Rightarrow> 'a list" where
  "py_slice xs st en =
     (let n = int (length xs);
          lo = (if st < 0 then max 0 (st + n) else min st n);
          hi = (if en < 0 then max 0 (en + n) else min en n)
      in take (nat (hi - lo)) (drop (nat lo) xs))"

text \<open>
  \<open>np.split(ary, indices)\<close> along axis 0 with a list of indices: the division points are
  \<open>0\<close>, the indices and the number of rows, and section \<open>i\<close> is the slice between
  division points \<open>i\<close> and \<open>i + 1\<close>.
\<close>

definition np_split :: "arr2d \<Rightarrow> int list \<Rightarrow> arr2d list" where
  "np_split ary indices =
     (let Ntotal = int (length (rows ary));
          Nsections = length indices + 1;
          div_points = [0] @ indices @ [Ntotal]
      in map (\<lambda>i. ary\<lparr>rows := py_slice (rows ary) (div_points ! i) (div_points ! (i + 1))\<rparr>)
           [0..<Nsections])"

text \<open>\<open>sig[:, 0]\<close>: column 0 of a two-dimensional array, an error when it has no column.\<close>

definition column0 :: "arr2d \<Rightarrow> error + real list" where
  "column0 sig = (if ncols sig = 0 then Inl IndexError else Inr (map (\<lambda>r. r ! 0) (rows sig)))"

text \<open>
  The comprehension \<open>[agg_func(sig[:, 0]) for sig in arr]\<close>: the sections are visited in
  order, and the first exception ends the loop. An aggregation function takes the column
  and returns an array (a scalar for \<open>np.mean\<close> and \<open>np.max\<close>) or raises.
\<close>

fun agg_each :: "(real list \<Rightarrow> error + ndarray) \<Rightarrow> arr2d list \<Rightarrow> error + ndarray list" where
  "agg_each agg_func [] = Inr []"
| "agg_each agg_func (sig # rest) =
     (case column0 sig of
        Inl e \<Rightarrow> Inl e
      | Inr col \<Rightarrow>
          (case agg_func col of
             Inl e \<Rightarrow> Inl e
           | Inr v \<Rightarrow>
               (case agg_each agg_func rest of
                  Inl e \<Rightarrow> Inl e
                | Inr vs \<Rightarrow> Inr (v # vs))))"

text \<open>The function: the optional softmax, the split, the comprehension, \<open>np.array\<close>.\<close>

definition aggregate_crops ::
    "arr2d \<Rightarrow> int list \<Rightarrow> (real list \<Rightarrow> error + ndarray) \<Rightarrow> bool \<Rightarrow> error + ndarray" where
  "aggregate_crops arr splits agg_func predictions =
     (case (if predictions then softmax arr else Inr arr) of
        Inl e \<Rightarrow> Inl e
      | Inr arr' \<Rightarrow>
          (case agg_each agg_func (np_split arr' (butlast (np_cumsum splits))) of
             Inl e \<Rightarrow> Inl e
           | Inr vs \<Rightarrow> np_array vs))"

subsection \<open>Cell 20: \<open>get_trainable_variables\<close> and \<open>calc_metrics\<close>\<close>

text \<open>
  The objects of the research library these two functions go through, each a record of
  the methods called on it; a method that can raise returns a sum. \<open>experiment\<close> is a
  dictionary from pipeline names to execution units.
\<close>

record model_obj =
  get_number_of_trainable_vars :: "error + nat"

record 'f metrics_obj =
  evaluate :: "string \<Rightarrow> error + 'f"

record 'f pipeline_obj =
  get_model_by_name :: "string \<Rightarrow> error + model_obj"
  get_variable :: "string \<Rightarrow> error + 'f metrics_obj"

record 'f exec_unit =
  pipeline :: "'f pipeline_obj"

definition get_trainable_variables ::
    "'i \<Rightarrow> (string \<rightharpoonup> 'f exec_unit) \<Rightarrow> string \<Rightarrow> string \<Rightarrow> error + nat" where
  "get_trainable_variables iteration experiment ppl model_name =
     (case experiment ppl of
        None \<Rightarrow> Inl KeyError
      | Some u \<Rightarrow>
          (case get_model_by_name (pipeline u) model_name of
             Inl e \<Rightarrow> Inl e
           | Inr m \<Rightarrow> get_number_of_trainable_vars m))"

definition calc_metrics ::
    "'i \<Rightarrow> (string \<rightharpoonup> 'f exec_unit) \<Rightarrow> string \<Rightarrow> string \<Rightarrow> error + 'f" where
  "calc_metrics iteration experiment ppl var_name =
     (case experiment ppl of
        None \<Rightarrow> Inl KeyError
      | Some u \<Rightarrow>
          (case get_variable (pipeline u) var_name of
             Inl e \<Rightarrow> Inl e
           | Inr metrics \<Rightarrow>
               (case evaluate metrics ''f1_score'' of
                  Inl e \<Rightarrow> Inl e
                | Inr f1 \<Rightarrow> Inr f1)))"

subsection \<open>Blocks of rows, to state what \<open>aggregate_crops\<close> returns\<close>

text \<open>
  The consecutive blocks of a list for a list of block sizes: the first block is the first
  \<open>n\<close> elements, the next blocks are cut from the rest in the same way.
\<close>

fun consecutive_blocks :: "'a list \<Rightarrow> nat list \<Rightarrow> 'a list list" where
  "consecutive_blocks xs [] = []"
| "consecutive_blocks xs (n # ns) = take n xs # consecutive_blocks (drop n xs) ns"

text \<open>\<open>np.max\<close> of a one-dimensional array, a scalar: an empty array has no maximum.\<close>

definition np_max :: "real list \<Rightarrow> error + ndarray" where
  "np_max a = (if a = [] then Inl ValueError else Inr (Scalar (fold max (tl a) (hd a))))"

section \<open>The execution frequency string\<close>

lemma of_char_digit_char: "d < 10 \<Longrightarrow> (of_char (digit_char d) :: nat) = 48 + d"
  by (simp add: digit_char_def)

lemma is_digit_digit_char: "d < 10 \<Longrightarrow> is_digit (digit_char d)"
  by (simp add: is_digit_def of_char_digit_char)

lemma str_nat_digits: "list_all is_digit (str_nat n)"
proof (induction n rule: str_nat.induct)
  case (1 n)
  show ?case
  proof (cases "n < 10")
    case True
    then show ?thesis by (simp add: str_nat.simps [of n] is_digit_digit_char)
  next
    case False
    with 1 show ?thesis by (simp add: str_nat.simps [of n] is_digit_digit_char)
  qed
qed

lemma digits_value_snoc: "digits_value (s @ [c]) = digits_value s * 10 + (of_char c - 48)"
  by (simp add: digits_value_def)

lemma digits_value_str_nat: "digits_value (str_nat n) = n"
proof (induction n rule: str_nat.induct)
  case (1 n)
  show ?case
  proof (cases "n < 10")
    case True
    then show ?thesis by (simp add: str_nat.simps [of n] digits_value_def of_char_digit_char)
  next
    case False
    with 1 show ?thesis
      by (simp add: str_nat.simps [of n] digits_value_snoc of_char_digit_char)
  qed
qed

lemma str_nat_40: "str_nat 40 = ''40''"
  by code_simp

lemma str_nat_eq_40: "(str_nat n = ''40'') = (n = 40)"
proof
  assume "str_nat n = ''40''"
  then have "digits_value (str_nat n) = digits_value ''40''" by simp
  then show "n = 40" by (simp add: digits_value_str_nat) (simp add: digits_value_def)
next
  assume "n = 40" then show "str_nat n = ''40''" by (simp add: str_nat_40)
qed

lemma str_nat_nonempty: "str_nat n \<noteq> []"
  by (simp add: str_nat.simps [of n])

lemma hd_str_nat: "0 < n \<Longrightarrow> hd (str_nat n) \<noteq> CHR ''0''"
proof (induction n rule: str_nat.induct)
  case (1 n)
  show ?case
  proof (cases "n < 10")
    case True
    with 1(2) have "(of_char (digit_char n) :: nat) \<noteq> of_char (CHR ''0'')"
      by (simp add: of_char_digit_char)
    then have "digit_char n \<noteq> CHR ''0''" by auto
    with True show ?thesis by (simp add: str_nat.simps [of n])
  next
    case False
    then have "0 < n div 10" by simp
    with 1(1) False have "hd (str_nat (n div 10)) \<noteq> CHR ''0''" by simp
    with False show ?thesis by (simp add: str_nat.simps [of n] str_nat_nonempty)
  qed
qed

lemma TEST_EXEC_FOR_eq: "TEST_EXEC_FOR t = ((t div 32) + 1) * 20"
  by (simp add: TEST_EXEC_FOR_def ITERATIONS_def BATCH_SIZE_def EPOCHS_def TEST_EACH_EPOCH_def)

text \<open>
  Claim C1. For every positive \<open>TRAIN_SIZE\<close>, \<open>TEST_EXEC_FOR\<close> is
  \<open>((TRAIN_SIZE // BATCH_SIZE) + 1) * TEST_EACH_EPOCH\<close>, a positive integer, and
  \<open>STR_EXEC\<close> is the character \<open>%\<close> followed by its decimal representation: digits
  only, no leading zero, reading back as \<open>TEST_EXEC_FOR\<close>. \<open>STR_EXEC\<close> is \<open>%40\<close>
  exactly when \<open>TRAIN_SIZE // BATCH_SIZE = 1\<close>.
\<close>

theorem STR_EXEC_shell_style:
  assumes "0 < TRAIN_SIZE"
  shows "TEST_EXEC_FOR TRAIN_SIZE = ((TRAIN_SIZE div BATCH_SIZE) + 1) * TEST_EACH_EPOCH
    \<and> 0 < TEST_EXEC_FOR TRAIN_SIZE
    \<and> STR_EXEC TRAIN_SIZE = CHR ''%'' # str_int (TEST_EXEC_FOR TRAIN_SIZE)
    \<and> list_all is_digit (tl (STR_EXEC TRAIN_SIZE))
    \<and> hd (tl (STR_EXEC TRAIN_SIZE)) \<noteq> CHR ''0''
    \<and> int (digits_value (tl (STR_EXEC TRAIN_SIZE))) = TEST_EXEC_FOR TRAIN_SIZE
    \<and> ((STR_EXEC TRAIN_SIZE = ''%40'') = (TRAIN_SIZE div BATCH_SIZE = 1))"
proof -
  let ?q = "TRAIN_SIZE div 32"
  from assms have q: "0 \<le> ?q" by simp
  have t: "TEST_EXEC_FOR TRAIN_SIZE = (?q + 1) * 20" by (rule TEST_EXEC_FOR_eq)
  with q have pos: "0 < TEST_EXEC_FOR TRAIN_SIZE" by simp
  then have s: "STR_EXEC TRAIN_SIZE = CHR ''%'' # str_nat (nat (TEST_EXEC_FOR TRAIN_SIZE))"
    by (simp add: STR_EXEC_def str_int_def)
  have si: "str_int (TEST_EXEC_FOR TRAIN_SIZE) = str_nat (nat (TEST_EXEC_FOR TRAIN_SIZE))"
    using pos by (simp add: str_int_def)
  have n0: "0 < nat (TEST_EXEC_FOR TRAIN_SIZE)" using pos by simp
  have e: "(nat (TEST_EXEC_FOR TRAIN_SIZE) = 40) = (?q = 1)"
    using q by (simp add: t nat_eq_iff)
  show ?thesis
    using pos q
    by (simp add: s si str_nat_digits hd_str_nat [OF n0] digits_value_str_nat str_nat_eq_40 e)
      (simp add: t BATCH_SIZE_def TEST_EACH_EPOCH_def)
qed

theorem STR_EXEC_shell_style_witness:
  "(0::int) < 50 \<and> (50::int) div BATCH_SIZE = 1 \<and> TEST_EXEC_FOR 50 = 40 \<and> STR_EXEC 50 = ''%40''"
proof -
  have h: "(0::int) < 50" by simp
  have d: "(50::int) div BATCH_SIZE = 1" by (simp add: BATCH_SIZE_def)
  from STR_EXEC_shell_style [OF h] d have "STR_EXEC 50 = ''%40''" by blast
  moreover from STR_EXEC_shell_style [OF h] d have "TEST_EXEC_FOR 50 = 40"
    by (simp add: TEST_EACH_EPOCH_def)
  ultimately show ?thesis using h d by simp
qed

section \<open>Dataset paths\<close>

lemma os_path_join_relative:
  "b \<noteq> [] \<Longrightarrow> hd b \<noteq> CHR ''/'' \<Longrightarrow> a \<noteq> [] \<Longrightarrow> last a \<noteq> CHR ''/'' \<Longrightarrow>
     os_path_join a b = a @ ''/'' @ b"
  by (simp add: os_path_join_def)

text \<open>
  Claim C5. The signals mask is the data directory joined with the glob pattern
  \<open>A*.hea\<close>, which contains the wildcard \<open>*\<close> and ends in \<open>.hea\<close>; the labels path
  is the data directory joined with exactly \<open>REFERENCE.csv\<close>. Both lie directly in the
  directory.
\<close>

theorem dataset_path_convention:
  "SIGNALS_MASK = os_path_join PATH ''A*.hea''
   \<and> CHR ''*'' \<in> set ''A*.hea''
   \<and> suffix ''.hea'' ''A*.hea''
   \<and> SIGNALS_MASK = PATH @ ''/A*.hea''
   \<and> suffix ''.hea'' SIGNALS_MASK
   \<and> LABELS_PATH = os_path_join PATH ''REFERENCE.csv''
   \<and> LABELS_PATH = PATH @ ''/REFERENCE.csv''
   \<and> SIGNALS_MASK = ''/notebooks/data/ECG/training2017/A*.hea''
   \<and> LABELS_PATH = ''/notebooks/data/ECG/training2017/REFERENCE.csv''"
proof -
  have m: "SIGNALS_MASK = PATH @ ''/A*.hea''"
    by (simp add: SIGNALS_MASK_def PATH_def os_path_join_def)
  have l: "LABELS_PATH = PATH @ ''/REFERENCE.csv''"
    by (simp add: LABELS_PATH_def PATH_def os_path_join_def)
  have s1: "suffix ''.hea'' ''A*.hea''"
    by (simp add: suffix_def)
  have "SIGNALS_MASK = (PATH @ ''/A*'') @ ''.hea''"
    by (simp add: m)
  then have s2: "suffix ''.hea'' SIGNALS_MASK"
    unfolding suffix_def by blast
  show ?thesis
    using m l s1 s2 by (simp add: SIGNALS_MASK_def LABELS_PATH_def) (simp add: PATH_def)
qed

section \<open>The model configuration\<close>

text \<open>
  Claim C7. Every key of \<open>model_config\<close> is a string; the keys are, in order,
  \<open>inputs\<close>, \<open>initial_block/inputs\<close>, \<open>loss\<close>, \<open>input_block/filters\<close>,
  \<open>body/block/layout\<close>, \<open>body/filters\<close>, \<open>body/num_blocks\<close>, \<open>session/config\<close>,
  \<open>device\<close> and \<open>optimizer\<close>, each once.
\<close>

theorem model_config_string_keys:
  "list_all is_str (map fst model_config)
   \<and> map fst model_config =
       map Str [''inputs'', ''initial_block/inputs'', ''loss'', ''input_block/filters'',
                ''body/block/layout'', ''body/filters'', ''body/num_blocks'',
                ''session/config'', ''device'', ''optimizer'']
   \<and> distinct (map fst model_config)"
  by (simp add: model_config_def)

section \<open>The run call\<close>






section \<open>Preparing the data of a batch\<close>

lemma np_repeat_same_length:
  assumes "length a = length reps"
  shows "np_repeat a reps = Inr (concat (map (\<lambda>(x, n). replicate n x) (zip a reps)))"
proof (cases "length reps = 1")
  case True
  with assms obtain x n where "a = [x]" "reps = [n]"
    by (metis One_nat_def length_0_conv length_Suc_conv)
  then show ?thesis by (simp add: np_repeat_def)
next
  case False
  with assms show ?thesis by (simp add: np_repeat_def)
qed

lemma length_concat_replicate:
  "length ss = length ts \<Longrightarrow>
   length (concat (map (\<lambda>(t, n). replicate n t) (zip ts (map length ss))))
     = sum_list (map length ss)"
  by (induction ss ts rule: list_induct2) simp_all

lemma labels_by_signal:
  "length ss = length ts \<Longrightarrow>
   concat (map (\<lambda>(t, n). replicate n t) (zip ts (map length ss)))
     = concat (map (\<lambda>(s, t). replicate (length s) t) (zip ss ts))"
  by (induction ss ts rule: list_induct2) simp_all

lemma zip_replicate_const: "zip s (replicate (length s) t) = map (\<lambda>seg. (seg, t)) s"
  by (induction s) simp_all

lemma zip_segments_labels:
  "length ss = length ts \<Longrightarrow>
   zip (concat ss) (concat (map (\<lambda>(s, t). replicate (length s) t) (zip ss ts)))
     = concat (map (\<lambda>(s, t). map (\<lambda>seg. (seg, t)) s) (zip ss ts))"
  by (induction ss ts rule: list_induct2) (simp_all add: zip_replicate_const)

lemma np_array_same_shape:
  assumes "\<forall>x\<in>set xs. shape x = sh"
  shows "np_array xs = Inr (Arr xs)"
proof (cases xs)
  case Nil
  then show ?thesis by (simp add: np_array_def)
next
  case (Cons y ys)
  with assms have "\<forall>x\<in>set xs. shape x = shape (hd xs)" by simp
  then show ?thesis by (simp add: np_array_def list_all_iff)
qed

lemma np_array_Inr: "np_array xs = Inr a \<Longrightarrow> a = Arr xs"
  by (auto simp: np_array_def split: if_splits)

text \<open>
  Claim C9, as amended. When the batch has one target per signal and the segments of all
  its signals have one and the same shape, \<open>make_data\<close> returns a \<open>feed_dict\<close> whose
  \<open>signals\<close> are the segments of all signals, in order, as many as the first dimensions
  of the signals add up to, and whose \<open>labels\<close> have the same length: the target of
  signal \<open>i\<close> repeated once per segment of signal \<open>i\<close>, so that each segment is paired
  with the target of the signal it came from.
\<close>

theorem make_data_pairs_segments:
  assumes "length (target b) = length (signal b)"
    and "\<forall>seg\<in>set (concat (signal b)). shape seg = sh"
  shows "\<exists>labs. make_data b
        = Inr \<lparr>feed_dict = \<lparr>signals = Arr (concat (signal b)), labels = labs\<rparr>\<rparr>
    \<and> length (concat (signal b)) = sum_list (map length (signal b))
    \<and> length labs = length (concat (signal b))
    \<and> labs = concat (map (\<lambda>(s, t). replicate (length s) t) (zip (signal b) (target b)))
    \<and> zip (concat (signal b)) labs
        = concat (map (\<lambda>(s, t). map (\<lambda>seg. (seg, t)) s) (zip (signal b) (target b)))"
proof -
  let ?ss = "signal b" and ?ts = "target b"
  let ?lab = "concat (map (\<lambda>(s, t). replicate (length s) t) (zip ?ss ?ts))"
  have len: "length ?ss = length ?ts" using assms(1) by simp
  have a: "np_array (concat ?ss) = Inr (Arr (concat ?ss))"
    using assms(2) by (rule np_array_same_shape)
  have "length ?ts = length (map length ?ss)" using assms(1) by simp
  then have "np_repeat ?ts (map length ?ss)
      = Inr (concat (map (\<lambda>(t, n). replicate n t) (zip ?ts (map length ?ss))))"
    by (rule np_repeat_same_length)
  then have r: "np_repeat ?ts (map length ?ss) = Inr ?lab"
    by (simp add: labels_by_signal [OF len])
  have m: "make_data b = Inr \<lparr>feed_dict = \<lparr>signals = Arr (concat ?ss), labels = ?lab\<rparr>\<rparr>"
    by (simp add: make_data_def a r)
  have l1: "length (concat ?ss) = sum_list (map length ?ss)"
    by (simp add: length_concat)
  have l2: "length ?lab = sum_list (map length ?ss)"
    using length_concat_replicate [OF len] labels_by_signal [OF len] by simp
  show ?thesis
    using m l1 l2 zip_segments_labels [OF len] by simp
qed

theorem make_data_pairs_segments_witness:
  "length (target \<lparr>signal = [[as_array [1, 2], as_array [3, 4]], [as_array [5, 6]]],
                   target = [''A'', ''NO'']\<rparr>)
     = length (signal \<lparr>signal = [[as_array [1, 2], as_array [3, 4]], [as_array [5, 6]]],
                       target = [''A'', ''NO'']\<rparr>)
   \<and> list_all (\<lambda>seg. shape seg = [2])
        (concat (signal \<lparr>signal = [[as_array [1, 2], as_array [3, 4]], [as_array [5, 6]]],
                         target = [''A'', ''NO'']\<rparr>))
   \<and> make_data \<lparr>signal = [[as_array [1, 2], as_array [3, 4]], [as_array [5, 6]]],
                 target = [''A'', ''NO'']\<rparr>
     = Inr \<lparr>feed_dict =
             \<lparr>signals = Arr [as_array [1, 2], as_array [3, 4], as_array [5, 6]],
              labels = [''A'', ''A'', ''NO'']\<rparr>\<rparr>"
proof -
  let ?b = "\<lparr>signal = [[as_array [1, 2], as_array [3, 4]], [as_array [5, 6]]],
             target = [''A'', ''NO'']\<rparr>"
  have h1: "length (target ?b) = length (signal ?b)" by simp
  have h2: "\<forall>seg\<in>set (concat (signal ?b)). shape seg = [2]"
    by (simp add: as_array_def)
  from make_data_pairs_segments [OF h1 h2]
  have "make_data ?b
      = Inr \<lparr>feed_dict = \<lparr>signals = Arr [as_array [1, 2], as_array [3, 4], as_array [5, 6]],
                          labels = [''A'', ''A'', ''NO'']\<rparr>\<rparr>"
    by auto
  then show ?thesis by (simp add: as_array_def)
qed

text \<open>
  The claim as first stated speaks of every batch with one target per signal. When the
  segments differ in shape, as for a first signal with the one segment \<open>[1, 2]\<close> and a
  second with the one segment \<open>[3]\<close>, \<open>np.array\<close> raises and nothing is returned.
\<close>

theorem make_data_ragged_counterexample:
  "length (target \<lparr>signal = [[as_array [1, 2]], [as_array [3]]], target = [''A'', ''NO'']\<rparr>)
     = length (signal \<lparr>signal = [[as_array [1, 2]], [as_array [3]]], target = [''A'', ''NO'']\<rparr>)
   \<and> make_data \<lparr>signal = [[as_array [1, 2]], [as_array [3]]], target = [''A'', ''NO'']\<rparr>
     = Inl ValueError"
  by (simp add: make_data_def np_array_def as_array_def)

section \<open>Centring and flipping a signal\<close>

lemma np_random_choice_sign:
  "np_random_choice [1, - 1 :: int] r = 1 \<or> np_random_choice [1, - 1 :: int] r = - 1"
proof -
  have c: "np_random_choice [1, - 1 :: int] r = [1, - 1] ! (r mod 2)"
    by (simp add: np_random_choice_def numeral_2_eq_2)
  have "r mod 2 = 0 \<or> r mod 2 = 1" by arith
  then show ?thesis
  proof
    assume "r mod 2 = 0"
    with c show ?thesis by simp
  next
    assume "r mod 2 = 1"
    with c show ?thesis by simp
  qed
qed

lemma np_random_choice_both:
  "np_random_choice [1, - 1 :: int] 0 = 1" "np_random_choice [1, - 1 :: int] 1 = - 1"
  by (simp_all add: np_random_choice_def)

lemma sum_list_shift: "sum_list (map (\<lambda>x. x - m) xs) = sum_list xs - real (length xs) * (m::real)"
  by (induction xs) (simp_all add: algebra_simps)

lemma sum_list_centred:
  assumes "xs \<noteq> []"
  shows "sum_list (map (\<lambda>x. x - sum_list xs / real (length xs)) xs) = 0"
proof -
  from assms have "real (length xs) \<noteq> 0" by simp
  then show ?thesis by (simp add: sum_list_shift)
qed

lemma sum_list_negated: "sum_list (map (\<lambda>x. - f x) xs) = - sum_list (map f xs :: real list)"
  by (induction xs) simp_all

text \<open>
  Claim C8, as amended. For every non-empty signal and every outcome \<open>r\<close> of the random
  draw, \<open>center_flip\<close> returns the signal minus its mean or the negation of that; the
  mean of the result is zero, and the absolute values of the result do not depend on the
  draw.
\<close>

theorem center_flip_centred:
  fixes signal :: "real list"
  assumes "signal \<noteq> []"
  shows "\<exists>m out. np_mean signal = Inr m \<and> center_flip r signal = Inr out
    \<and> (out = map (\<lambda>x. x - m) signal \<or> out = map (\<lambda>x. - (x - m)) signal)
    \<and> np_mean out = Inr 0
    \<and> map abs out = map (\<lambda>x. \<bar>x - m\<bar>) signal"
proof -
  let ?m = "sum_list signal / real (length signal)"
  have m: "np_mean signal = Inr ?m"
    using assms by (simp add: np_mean_def)
  have c0: "sum_list (map (\<lambda>x. x - ?m) signal) = 0"
    using assms by (rule sum_list_centred)
  from np_random_choice_sign [of r] show ?thesis
  proof
    assume s: "np_random_choice [1, - 1 :: int] r = 1"
    have "center_flip r signal = Inr (map (\<lambda>x. x - ?m) signal)"
      by (simp add: center_flip_def m s)
    moreover have "np_mean (map (\<lambda>x. x - ?m) signal) = Inr 0"
      using assms c0 by (simp add: np_mean_def)
    moreover have "map abs (map (\<lambda>x. x - ?m) signal) = map (\<lambda>x. \<bar>x - ?m\<bar>) signal"
      by simp
    ultimately show ?thesis using m by blast
  next
    assume s: "np_random_choice [1, - 1 :: int] r = - 1"
    have "center_flip r signal = Inr (map (\<lambda>x. - (x - ?m)) signal)"
      by (simp add: center_flip_def m s)
    moreover have "np_mean (map (\<lambda>x. - (x - ?m)) signal) = Inr 0"
      using assms c0 by (simp add: np_mean_def sum_list_negated del: minus_diff_eq)
    moreover have "map abs (map (\<lambda>x. - (x - ?m)) signal) = map (\<lambda>x. \<bar>x - ?m\<bar>) signal"
      by (simp del: minus_diff_eq)
    ultimately show ?thesis using m by blast
  qed
qed

theorem center_flip_centred_witness:
  "[1, 3 :: real] \<noteq> [] \<and> np_mean [1, 3] = Inr 2 \<and> center_flip 1 [1, 3] = Inr [1, - 1]
   \<and> np_mean [1, - 1] = Inr 0"
proof -
  have h: "[1, 3 :: real] \<noteq> []" by simp
  have m: "np_mean [1, 3] = Inr 2" by (simp add: np_mean_def)
  from center_flip_centred [OF h, of 1] m
  have "center_flip 1 [1, 3] = Inr [- 1, 1] \<or> center_flip 1 [1, 3] = Inr [1, - 1]"
    by auto
  moreover have "center_flip 1 [1, 3] \<noteq> Inr [- 1, 1]"
    by (simp add: center_flip_def m np_random_choice_def)
  ultimately have "center_flip 1 [1, 3] = Inr [1, - 1]" by blast
  then show ?thesis using m by (simp add: np_mean_def)
qed

text \<open>
  The claim as first stated speaks of every signal array. The empty array has no mean:
  \<open>center_flip\<close> ends in the division by the size \<open>0\<close>, and the empty array itself has
  no mean either, so no returned array with mean zero exists.
\<close>

theorem center_flip_empty_counterexample:
  "center_flip 0 [] = Inl ZeroDivisionError \<and> np_mean [] \<noteq> Inr 0"
  by (simp add: center_flip_def np_mean_def)
section \<open>\<open>center_flip\<close> as a transformation of its own\<close>

lemma map_fixes_iff: "(map f xs = xs) = (\<forall>x\<in>set xs. f x = x)"
  by (induction xs) auto

lemma all_zero_sum: "\<forall>x\<in>set xs. x = (0::real) \<Longrightarrow> sum_list xs = 0"
  by (induction xs) simp_all

lemma all_equal_sum: "\<forall>x\<in>set xs. x = (c::real) \<Longrightarrow> sum_list xs = real (length xs) * c"
  by (induction xs) (simp_all add: algebra_simps)

text \<open>
  Claim C2, as amended. The notebook does define functions that implement a numerical
  transformation of their own. One is \<open>center_flip\<close>: in exact arithmetic it returns, for
  every non-empty signal and every draw, the signal minus its mean, multiplied by the sign
  drawn, \<open>1\<close> or \<open>-1\<close>; and that result is the signal itself only when the entries of
  the signal add up to zero and either the sign drawn is \<open>1\<close> or every entry is zero. On
  every other non-empty signal \<open>center_flip\<close> returns an array that differs from its
  input.
\<close>

theorem center_flip_own_transformation:
  fixes signal :: "real list"
  assumes "signal \<noteq> []"
  shows "center_flip r signal
      = Inr (map (\<lambda>x. real_of_int (np_random_choice [1, - 1] r)
                        * (x - sum_list signal / real (length signal))) signal)
    \<and> (np_random_choice [1, - 1 :: int] r = 1 \<or> np_random_choice [1, - 1 :: int] r = - 1)
    \<and> ((center_flip r signal = Inr signal)
        = (sum_list signal = 0
           \<and> (np_random_choice [1, - 1 :: int] r = 1 \<or> (\<forall>x\<in>set signal. x = 0))))"
proof -
  let ?m = "sum_list signal / real (length signal)"
  let ?s = "np_random_choice [1, - 1 :: int] r"
  have n: "real (length signal) \<noteq> 0" using assms by simp
  have m: "np_mean signal = Inr ?m"
    using assms by (simp add: np_mean_def)
  have cf: "center_flip r signal = Inr (map (\<lambda>x. real_of_int ?s * (x - ?m)) signal)"
    by (simp add: center_flip_def m Let_def)
  have m0: "(?m = 0) = (sum_list signal = 0)" using n by simp
  obtain y where y: "y \<in> set signal" using assms by (cases signal) auto
  have same: "(center_flip r signal = Inr signal)
      = (sum_list signal = 0 \<and> (?s = 1 \<or> (\<forall>x\<in>set signal. x = 0)))"
  proof (cases "?s = 1")
    case True
    then have "(center_flip r signal = Inr signal) = (\<forall>x\<in>set signal. x - ?m = x)"
      by (simp add: cf map_fixes_iff)
    also have "\<dots> = (?m = 0)" using y by auto
    finally show ?thesis using True m0 by simp
  next
    case False
    with np_random_choice_sign [of r] have s: "?s = - 1" by blast
    then have e: "(center_flip r signal = Inr signal) = (\<forall>x\<in>set signal. ?m - x = x)"
      by (simp add: cf map_fixes_iff)
    show ?thesis
    proof
      assume "center_flip r signal = Inr signal"
      with e have h: "\<forall>x\<in>set signal. x = ?m / 2" by auto
      then have "sum_list signal = real (length signal) * (?m / 2)"
        by (rule all_equal_sum)
      with n have "?m = ?m / 2" by (simp add: field_simps)
      then have z: "?m = 0" by simp
      with h have "\<forall>x\<in>set signal. x = 0" by simp
      with z m0 show "sum_list signal = 0 \<and> (?s = 1 \<or> (\<forall>x\<in>set signal. x = 0))" by simp
    next
      assume "sum_list signal = 0 \<and> (?s = 1 \<or> (\<forall>x\<in>set signal. x = 0))"
      with False have "sum_list signal = 0" and "\<forall>x\<in>set signal. x = 0" by simp_all
      then have "\<forall>x\<in>set signal. ?m - x = x" by simp
      with e show "center_flip r signal = Inr signal" by simp
    qed
  qed
  from cf np_random_choice_sign [of r] same show ?thesis by blast
qed

theorem center_flip_own_transformation_witness:
  "[1, 3 :: real] \<noteq> [] \<and> sum_list [1, 3 :: real] \<noteq> 0 \<and> center_flip 0 [1, 3] \<noteq> Inr [1, 3]
   \<and> [- 1, 1 :: real] \<noteq> [] \<and> sum_list [- 1, 1 :: real] = 0
   \<and> np_random_choice [1, - 1 :: int] 0 = 1 \<and> center_flip 0 [- 1, 1] = Inr [- 1, 1]"
proof -
  have h1: "[1, 3 :: real] \<noteq> []" and h2: "[- 1, 1 :: real] \<noteq> []" by simp_all
  have s1: "sum_list [1, 3 :: real] \<noteq> 0" and s2: "sum_list [- 1, 1 :: real] = 0" by simp_all
  have c: "np_random_choice [1, - 1 :: int] 0 = 1" by (simp add: np_random_choice_def)
  from center_flip_own_transformation [OF h1, of 0] s1
  have a: "center_flip 0 [1, 3] \<noteq> Inr [1, 3]" by blast
  from center_flip_own_transformation [OF h2, of 0] s2 c
  have b: "center_flip 0 [- 1, 1] = Inr [- 1, 1]" by blast
  from h1 h2 s1 s2 c a b show ?thesis by blast
qed

text \<open>
  The claim as first stated has no function of the notebook transform numbers itself. But
  \<open>center_flip\<close>, written in the notebook, turns the signal \<open>[1, 3]\<close> into
  \<open>[-1, 1]\<close> (or \<open>[1, -1]\<close>): it subtracts the mean and multiplies by a sign.
\<close>

theorem center_flip_transforms_counterexample:
  "center_flip 0 [1, 3] = Inr [- 1, 1] \<and> center_flip 1 [1, 3] = Inr [1, - 1]
   \<and> center_flip 0 [1, 3] \<noteq> Inr [1, 3]"
  by (simp add: center_flip_def np_mean_def np_random_choice_def)

section \<open>Aggregating crops\<close>

lemma length_cumsum_from: "length (cumsum_from acc xs) = length xs"
  by (induction xs arbitrary: acc) simp_all

lemma nth_cumsum_from:
  "i < length xs \<Longrightarrow> cumsum_from acc xs ! i = acc + sum_list (take (Suc i) xs)"
proof (induction xs arbitrary: acc i)
  case Nil
  then show ?case by simp
next
  case (Cons x xs)
  show ?case
  proof (cases i)
    case 0
    then show ?thesis by simp
  next
    case (Suc j)
    with Cons.prems have "j < length xs" by simp
    then have "cumsum_from (acc + x) xs ! j = (acc + x) + sum_list (take (Suc j) xs)"
      by (rule Cons.IH)
    with Suc show ?thesis by simp
  qed
qed

lemma last_cumsum_from: "xs \<noteq> [] \<Longrightarrow> last (cumsum_from acc xs) = acc + sum_list xs"
proof -
  assume ne: "xs \<noteq> []"
  then have "cumsum_from acc xs \<noteq> []"
    using length_cumsum_from [of acc xs] by auto
  then have "last (cumsum_from acc xs) = cumsum_from acc xs ! (length xs - 1)"
    by (simp add: last_conv_nth length_cumsum_from)
  also from ne have "\<dots> = acc + sum_list (take (Suc (length xs - 1)) xs)"
    by (intro nth_cumsum_from) simp
  finally show ?thesis using ne by simp
qed

lemma division_points:
  assumes "splits \<noteq> []" and "sum_list splits = n"
  shows "[0] @ butlast (np_cumsum splits) @ [n] = 0 # np_cumsum splits"
proof -
  from assms(1) have ne: "np_cumsum splits \<noteq> []"
    using length_cumsum_from [of 0 splits] by (auto simp: np_cumsum_def)
  from assms have "last (np_cumsum splits) = n"
    by (simp add: np_cumsum_def last_cumsum_from)
  with ne have "butlast (np_cumsum splits) @ [n] = np_cumsum splits"
    using append_butlast_last_id [of "np_cumsum splits"] by simp
  then show ?thesis by simp
qed

lemma nth_division_points:
  "i \<le> length splits \<Longrightarrow> (0 # np_cumsum splits) ! i = sum_list (take i splits)"
  by (cases i) (simp_all add: np_cumsum_def nth_cumsum_from)

lemma sum_list_take_nonneg:
  "\<forall>s\<in>set xs. 0 \<le> (s::int) \<Longrightarrow> 0 \<le> sum_list (take i xs)"
  by (rule sum_list_nonneg) (auto dest: in_set_takeD)

lemma sum_list_take_le:
  "\<forall>s\<in>set xs. 0 \<le> (s::int) \<Longrightarrow> sum_list (take i xs) \<le> sum_list xs"
proof -
  assume a: "\<forall>s\<in>set xs. 0 \<le> s"
  have "sum_list xs = sum_list (take i xs) + sum_list (drop i xs)"
    by (metis append_take_drop_id sum_list_append)
  moreover have "0 \<le> sum_list (drop i xs)"
    using a by (intro sum_list_nonneg) (auto dest: in_set_dropD)
  ultimately show ?thesis by simp
qed

lemma sum_list_map_nat:
  "\<forall>s\<in>set xs. 0 \<le> (s::int) \<Longrightarrow> sum_list (map nat xs) = nat (sum_list xs)"
proof (induction xs)
  case Nil
  then show ?case by simp
next
  case (Cons x xs)
  then have "0 \<le> sum_list xs" by (intro sum_list_nonneg) simp
  with Cons show ?case by (simp add: nat_add_distrib)
qed

lemma py_slice_inside:
  assumes "0 \<le> a" "a \<le> b" "b \<le> int (length xs)"
  shows "py_slice xs a b = take (nat (b - a)) (drop (nat a) xs)"
  using assms by (simp add: py_slice_def Let_def min_def)

lemma length_consecutive_blocks: "length (consecutive_blocks xs ns) = length ns"
  by (induction xs ns rule: consecutive_blocks.induct) simp_all

lemma nth_consecutive_blocks:
  "i < length ns \<Longrightarrow>
   consecutive_blocks xs ns ! i = take (ns ! i) (drop (sum_list (take i ns)) xs)"
proof (induction xs ns arbitrary: i rule: consecutive_blocks.induct)
  case (1 xs)
  then show ?case by simp
next
  case (2 xs n ns)
  show ?case
  proof (cases i)
    case 0
    then show ?thesis by simp
  next
    case (Suc j)
    with 2 show ?thesis by (simp add: add.commute)
  qed
qed

lemma concat_consecutive_blocks:
  "sum_list ns = length xs \<Longrightarrow> concat (consecutive_blocks xs ns) = xs"
proof (induction xs ns rule: consecutive_blocks.induct)
  case (1 xs)
  then show ?case by simp
next
  case (2 xs n ns)
  then show ?case by simp
qed

lemma np_split_blocks:
  assumes ne: "splits \<noteq> []"
    and pos: "\<forall>s\<in>set splits. 0 < s"
    and total: "sum_list splits = int (length (rows arr))"
  shows "np_split arr (butlast (np_cumsum splits))
     = map (\<lambda>blk. arr\<lparr>rows := blk\<rparr>) (consecutive_blocks (rows arr) (map nat splits))"
proof (rule nth_equalityI)
  have lc: "length (np_cumsum splits) = length splits"
    by (simp add: np_cumsum_def length_cumsum_from)
  from ne have k: "length (butlast (np_cumsum splits)) + 1 = length splits"
    by (simp add: lc)
  show len: "length (np_split arr (butlast (np_cumsum splits)))
      = length (map (\<lambda>blk. arr\<lparr>rows := blk\<rparr>) (consecutive_blocks (rows arr) (map nat splits)))"
    using k by (simp add: np_split_def Let_def length_consecutive_blocks)
  fix i
  assume "i < length (np_split arr (butlast (np_cumsum splits)))"
  then have i: "i < length splits"
    using k by (simp add: np_split_def Let_def)
  from pos have nonneg: "\<forall>s\<in>set splits. 0 \<le> s" by auto
  let ?a = "sum_list (take i splits)"
  let ?b = "sum_list (take (Suc i) splits)"
  have dp: "butlast (np_cumsum splits) @ [int (length (rows arr))] = np_cumsum splits"
    using division_points [OF ne total] by simp
  have a: "(0 # np_cumsum splits) ! i = ?a"
    using i by (simp add: nth_division_points)
  have b: "(0 # np_cumsum splits) ! (i + 1) = ?b"
    using i nth_division_points [of "Suc i" splits] by simp
  have ba: "?b = ?a + splits ! i"
    using i by (simp add: take_Suc_conv_app_nth)
  have a0: "0 \<le> ?a" using nonneg by (rule sum_list_take_nonneg)
  have si: "0 < splits ! i" using pos i by simp
  have bn: "?b \<le> int (length (rows arr))"
    using sum_list_take_le [OF nonneg, of "Suc i"] total by simp
  have sl: "py_slice (rows arr) ?a ?b = take (nat (splits ! i)) (drop (nat ?a) (rows arr))"
    using a0 si bn ba py_slice_inside [of ?a ?b "rows arr"] by simp
  have "\<forall>s\<in>set (take i splits). 0 \<le> s"
    using nonneg by (auto dest: in_set_takeD)
  then have na: "sum_list (take i (map nat splits)) = nat ?a"
    by (simp add: take_map sum_list_map_nat)
  have lhs: "np_split arr (butlast (np_cumsum splits)) ! i
      = arr\<lparr>rows := py_slice (rows arr) ?a ?b\<rparr>"
    using i k a b by (simp add: np_split_def Let_def dp del: upt_Suc)
  have rhs: "map (\<lambda>blk. arr\<lparr>rows := blk\<rparr>) (consecutive_blocks (rows arr) (map nat splits)) ! i
      = arr\<lparr>rows := take (nat (splits ! i)) (drop (nat ?a) (rows arr))\<rparr>"
    using i by (simp add: length_consecutive_blocks nth_consecutive_blocks na)
  show "np_split arr (butlast (np_cumsum splits)) ! i
      = map (\<lambda>blk. arr\<lparr>rows := blk\<rparr>) (consecutive_blocks (rows arr) (map nat splits)) ! i"
    by (simp only: lhs rhs sl)
qed

lemma agg_each_Inr_iff:
  "(agg_each agg_func blocks = Inr vs)
     = (length vs = length blocks
        \<and> (\<forall>i<length blocks. \<exists>c. column0 (blocks ! i) = Inr c \<and> agg_func c = Inr (vs ! i)))"
proof (induction blocks arbitrary: vs)
  case Nil
  then show ?case by auto
next
  case (Cons b blocks)
  show ?case
  proof
    assume "agg_each agg_func (b # blocks) = Inr vs"
    then obtain c v ws where b: "column0 b = Inr c" "agg_func c = Inr v"
      and ws: "agg_each agg_func blocks = Inr ws" and vs: "vs = v # ws"
      by (auto split: sum.splits)
    from ws Cons.IH [of ws]
    have "length ws = length blocks"
      and "\<forall>i<length blocks. \<exists>c. column0 (blocks ! i) = Inr c \<and> agg_func c = Inr (ws ! i)"
      by simp_all
    with b vs
    show "length vs = length (b # blocks)
        \<and> (\<forall>i<length (b # blocks).
              \<exists>c. column0 ((b # blocks) ! i) = Inr c \<and> agg_func c = Inr (vs ! i))"
      by (auto simp: nth_Cons split: nat.splits)
  next
    assume a: "length vs = length (b # blocks)
        \<and> (\<forall>i<length (b # blocks).
              \<exists>c. column0 ((b # blocks) ! i) = Inr c \<and> agg_func c = Inr (vs ! i))"
    then obtain v ws where vs: "vs = v # ws" and lw: "length ws = length blocks"
      by (cases vs) auto
    from a have "\<exists>c. column0 ((b # blocks) ! 0) = Inr c \<and> agg_func c = Inr (vs ! 0)"
      by blast
    then obtain c where b: "column0 b = Inr c" "agg_func c = Inr v"
      using vs by auto
    have "\<forall>i<length blocks. \<exists>c. column0 (blocks ! i) = Inr c \<and> agg_func c = Inr (ws ! i)"
    proof (intro allI impI)
      fix i
      assume "i < length blocks"
      then have "Suc i < length (b # blocks)" by simp
      with a have "\<exists>c. column0 ((b # blocks) ! Suc i) = Inr c \<and> agg_func c = Inr (vs ! Suc i)"
        by blast
      then show "\<exists>c. column0 (blocks ! i) = Inr c \<and> agg_func c = Inr (ws ! i)"
        using vs by simp
    qed
    with lw Cons.IH [of ws] have "agg_each agg_func blocks = Inr ws" by simp
    with b vs show "agg_each agg_func (b # blocks) = Inr vs" by simp
  qed
qed

text \<open>
  Claim C10, as amended. Let \<open>arr\<close> be a two-dimensional array with at least one column,
  \<open>splits\<close> a non-empty list of positive integers that add up to the number of rows, and
  \<open>agg_func\<close> an aggregation function whose values on column 0 of the consecutive blocks
  of \<open>splits[i]\<close> rows all have one and the same shape (a scalar each, for instance).
  Then \<open>aggregate_crops\<close> with \<open>predictions=False\<close> returns an array of exactly
  \<open>len(splits)\<close> entries whose entry \<open>i\<close> is \<open>agg_func\<close> applied to column 0 of
  block \<open>i\<close>.
\<close>

theorem aggregate_crops_per_block:
  assumes "wf_arr arr" and "0 < ncols arr" and "splits \<noteq> []"
    and "\<forall>s\<in>set splits. 0 < s"
    and "sum_list splits = int (length (rows arr))"
    and "\<forall>i<length splits. \<exists>y.
          agg_func (map (\<lambda>r. r ! 0) (consecutive_blocks (rows arr) (map nat splits) ! i)) = Inr y
          \<and> shape y = sh"
  shows "\<exists>ys. aggregate_crops arr splits agg_func False = Inr (Arr ys)
    \<and> length ys = length splits
    \<and> (\<forall>i<length splits.
          agg_func (map (\<lambda>r. r ! 0) (consecutive_blocks (rows arr) (map nat splits) ! i))
            = Inr (ys ! i))
    \<and> length (consecutive_blocks (rows arr) (map nat splits)) = length splits
    \<and> (\<forall>i<length splits.
          length (consecutive_blocks (rows arr) (map nat splits) ! i) = nat (splits ! i))
    \<and> concat (consecutive_blocks (rows arr) (map nat splits)) = rows arr"
proof -
  let ?blocks = "consecutive_blocks (rows arr) (map nat splits)"
  let ?secs = "map (\<lambda>blk. arr\<lparr>rows := blk\<rparr>) ?blocks"
  let ?col = "\<lambda>i. map (\<lambda>r. r ! 0) (?blocks ! i)"
  let ?ys = "map (\<lambda>i. projr (agg_func (?col i))) [0..<length splits]"
  from assms(4) have nonneg: "\<forall>s\<in>set splits. 0 \<le> s" by auto
  have sp: "np_split arr (butlast (np_cumsum splits)) = ?secs"
    using assms(3,4,5) by (rule np_split_blocks)
  have len: "length ?blocks = length splits"
    by (simp add: length_consecutive_blocks)
  have val: "agg_func (?col i) = Inr (?ys ! i) \<and> shape (?ys ! i) = sh" if "i < length splits" for i
  proof -
    from assms(6) that obtain y where "agg_func (?col i) = Inr y" "shape y = sh" by blast
    with that show ?thesis by simp
  qed
  have "agg_each agg_func ?secs = Inr ?ys"
  proof -
    have "\<forall>i<length ?secs. \<exists>c. column0 (?secs ! i) = Inr c \<and> agg_func c = Inr (?ys ! i)"
    proof (intro allI impI)
      fix i
      assume "i < length ?secs"
      then have i: "i < length splits" by (simp add: len)
      then have "column0 (?secs ! i) = Inr (?col i)"
        using assms(2) by (simp add: column0_def len)
      with val [OF i] show "\<exists>c. column0 (?secs ! i) = Inr c \<and> agg_func c = Inr (?ys ! i)"
        by blast
    qed
    moreover have "length ?ys = length ?secs" by (simp add: len)
    ultimately show ?thesis by (simp only: agg_each_Inr_iff) 
  qed
  moreover have "np_array ?ys = Inr (Arr ?ys)"
  proof (rule np_array_same_shape)
    show "\<forall>x\<in>set ?ys. shape x = sh"
    proof
      fix x
      assume "x \<in> set ?ys"
      then obtain i where "i < length splits" "x = ?ys ! i"
        by (auto simp: in_set_conv_nth)
      with val show "shape x = sh" by blast
    qed
  qed
  ultimately have eq: "aggregate_crops arr splits agg_func False = Inr (Arr ?ys)"
    by (simp add: aggregate_crops_def sp)
  have total: "sum_list (map nat splits) = length (rows arr)"
    using assms(5) by (simp add: sum_list_map_nat [OF nonneg])
  have each: "\<forall>i<length splits. length (?blocks ! i) = nat (splits ! i)"
  proof (intro allI impI)
    fix i
    assume i: "i < length splits"
    have "sum_list (map nat splits)
        = sum_list (take i (map nat splits)) + sum_list (drop i (map nat splits))"
      by (metis append_take_drop_id sum_list_append)
    moreover have "drop i (map nat splits) = nat (splits ! i) # drop (Suc i) (map nat splits)"
      using i by (simp add: Cons_nth_drop_Suc [symmetric])
    ultimately have "sum_list (take i (map nat splits)) + nat (splits ! i) \<le> length (rows arr)"
      using total by simp
    then show "length (?blocks ! i) = nat (splits ! i)"
      using i by (simp add: nth_consecutive_blocks)
  qed
  have cc: "concat ?blocks = rows arr"
    using total by (rule concat_consecutive_blocks)
  have ly: "length ?ys = length splits" by simp
  have all: "\<forall>i<length splits. agg_func (?col i) = Inr (?ys ! i)"
    using val by blast
  from eq ly all len each cc show ?thesis by blast
qed

theorem aggregate_crops_per_block_witness:
  "wf_arr \<lparr>ncols = 2, rows = [[0, 1], [0, 1], [1, 0]]\<rparr>
   \<and> 0 < ncols \<lparr>ncols = 2, rows = [[0, 1], [0, 1], [1, 0]]\<rparr>
   \<and> [2, 1 :: int] \<noteq> []
   \<and> list_all (\<lambda>s. 0 < s) [2, 1 :: int]
   \<and> sum_list [2, 1] = int (length (rows \<lparr>ncols = 2, rows = [[0, 1], [0, 1], [1, 0]]\<rparr>))
   \<and> np_max [0, 0] = Inr (Scalar 0) \<and> np_max [1] = Inr (Scalar 1)
   \<and> shape (Scalar 0) = [] \<and> shape (Scalar 1) = []
   \<and> aggregate_crops \<lparr>ncols = 2, rows = [[0, 1], [0, 1], [1, 0]]\<rparr> [2, 1] np_max False
       = Inr (Arr [Scalar 0, Scalar 1])"
proof -
  let ?A = "\<lparr>ncols = 2, rows = [[0, 1], [0, 1], [1, 0 :: real]]\<rparr>"
  have h1: "wf_arr ?A" by (simp add: wf_arr_def)
  have h2: "0 < ncols ?A" by simp
  have h3: "[2, 1 :: int] \<noteq> []" by simp
  have h4: "\<forall>s\<in>set [2, 1 :: int]. 0 < s" by simp
  have h5: "sum_list [2, 1] = int (length (rows ?A))" by simp
  have b: "consecutive_blocks (rows ?A) (map nat [2, 1]) = [[[0, 1], [0, 1]], [[1, 0]]]"
    by (simp add: numeral_2_eq_2)
  have m: "np_max [0, 0] = Inr (Scalar 0)" "np_max [1] = Inr (Scalar 1)"
    by (simp_all add: np_max_def)
  have h6: "\<forall>i<length [2, 1 :: int]. \<exists>y.
      np_max (map (\<lambda>r. r ! 0) (consecutive_blocks (rows ?A) (map nat [2, 1]) ! i)) = Inr y
      \<and> shape y = []"
  proof (intro allI impI)
    fix i
    assume "i < length [2, 1 :: int]"
    then have "i = 0 \<or> i = 1" by auto
    then show "\<exists>y.
        np_max (map (\<lambda>r. r ! 0) (consecutive_blocks (rows ?A) (map nat [2, 1]) ! i)) = Inr y
        \<and> shape y = []"
      unfolding b using m by auto
  qed
  from aggregate_crops_per_block [OF h1 h2 h3 h4 h5 h6]
  obtain ys where r: "aggregate_crops ?A [2, 1] np_max False = Inr (Arr ys)"
    and l: "length ys = length [2, 1 :: int]"
    and v: "\<forall>i<length [2, 1 :: int].
        np_max (map (\<lambda>r. r ! 0) (consecutive_blocks (rows ?A) (map nat [2, 1]) ! i))
          = Inr (ys ! i)"
    by blast
  have v': "\<forall>i<length [2, 1 :: int].
      np_max (map (\<lambda>r. r ! 0) ([[[0, 1], [0, 1]], [[1, 0]]] ! i)) = Inr (ys ! i)"
    using v unfolding b .
  have "(0::nat) < length [2, 1 :: int]" by simp
  with v' have "np_max (map (\<lambda>r. r ! 0) ([[[0, 1], [0, 1]], [[1, 0]]] ! 0)) = Inr (ys ! 0)"
    by blast
  then have y0: "ys ! 0 = Scalar 0" using m by simp
  have "(1::nat) < length [2, 1 :: int]" by simp
  with v' have "np_max (map (\<lambda>r. r ! 0) ([[[0, 1], [0, 1]], [[1, 0]]] ! 1)) = Inr (ys ! 1)"
    by blast
  then have y1: "ys ! 1 = Scalar 1" using m by simp
  note y0 y1
  moreover from l obtain y0 y1 where "ys = [y0, y1]"
    by (cases ys; cases "tl ys") auto
  ultimately have "ys = [Scalar 0, Scalar 1]" by simp
  with r h1 h2 h5 m show ?thesis by simp
qed

text \<open>
  The claim as first stated speaks of every aggregation function. With the function that
  returns the column itself, three rows and \<open>splits = [2, 1]\<close>, the two results have
  shapes \<open>(2,)\<close> and \<open>(1,)\<close>, \<open>np.array\<close> raises and no array is returned.
\<close>

theorem aggregate_crops_ragged_counterexample:
  "wf_arr \<lparr>ncols = 2, rows = [[0, 1], [0, 1], [1, 0]]\<rparr>
   \<and> sum_list [2, 1] = int (length (rows \<lparr>ncols = 2, rows = [[0, 1], [0, 1], [1, 0]]\<rparr>))
   \<and> aggregate_crops \<lparr>ncols = 2, rows = [[0, 1], [0, 1], [1, 0]]\<rparr> [2, 1]
        (\<lambda>c. Inr (as_array c)) False
       = Inl ValueError"
  by (simp add: wf_arr_def aggregate_crops_def np_cumsum_def np_split_def py_slice_def
      column0_def np_array_def as_array_def Let_def numeral_2_eq_2)

section \<open>The softmax of \<open>aggregate_crops\<close>\<close>

lemma zip_with_image: "map (\<lambda>(r, c). g r c) (zip xs (map f xs)) = map (\<lambda>r. g r (f r)) xs"
  by (induction xs) simp_all

lemma sum_list_divide: "sum_list (map (\<lambda>x. f x / c) xs) = sum_list (map f xs) / (c::real)"
  by (induction xs) (simp_all add: add_divide_distrib)

lemma sum_list_exp_pos: "xs \<noteq> [] \<Longrightarrow> 0 < sum_list (map exp (xs :: real list))"
proof (induction xs)
  case Nil
  then show ?case by simp
next
  case (Cons x xs)
  have "0 \<le> sum_list (map exp xs)"
    by (rule sum_list_nonneg) auto
  then have "0 < exp x + sum_list (map exp xs)"
    by (rule add_pos_nonneg [OF exp_gt_zero])
  then show ?case by simp
qed

lemma exp_le_sum_list: "x \<in> set xs \<Longrightarrow> exp x \<le> sum_list (map exp (xs :: real list))"
proof (induction xs)
  case Nil
  then show ?case by simp
next
  case (Cons y ys)
  have nn: "0 \<le> sum_list (map exp ys)"
    by (rule sum_list_nonneg) auto
  have ey: "0 \<le> exp y" by simp
  show ?case
  proof (cases "x = y")
    case True
    from nn have "exp y \<le> exp y + sum_list (map exp ys)" by linarith
    with True show ?thesis by simp
  next
    case False
    with Cons have "exp x \<le> sum_list (map exp ys)" by simp
    with ey have "exp x \<le> exp y + sum_list (map exp ys)" by linarith
    then show ?thesis by simp
  qed
qed

lemma zip_two_images:
  "map (\<lambda>(r, c). h r c) (zip (map f xs) (map g xs)) = map (\<lambda>x. h (f x) (g x)) xs"
  by (induction xs) simp_all

lemma shifted_softmax_row:
  "map (\<lambda>x. exp (x - m) / sum_list (map (\<lambda>x. exp (x - m)) r)) r
     = map (\<lambda>x. exp x / sum_list (map exp r)) (r :: real list)"
proof -
  have "sum_list (map (\<lambda>x. exp (x - m)) r) = sum_list (map (\<lambda>x. exp x / exp m) r)"
    by (simp add: exp_diff)
  also have "\<dots> = sum_list (map exp r) / exp m"
    by (rule sum_list_divide)
  finally have s: "sum_list (map (\<lambda>x. exp (x - m)) r) = sum_list (map exp r) / exp m" .
  have k: "exp (x - m) / (sum_list (map exp r) / exp m) = exp x / sum_list (map exp r)" for x
    by (simp add: exp_diff)
  show ?thesis
    by (simp only: s k)
qed

lemma softmax_closed_form:
  assumes "0 < ncols arr"
  shows "softmax arr
     = Inr (arr\<lparr>rows := map (\<lambda>r. map (\<lambda>x. exp x / sum_list (map exp r)) r) (rows arr)\<rparr>)"
proof -
  let ?mx = "\<lambda>r :: real list. fold max (tl r) (hd r)"
  have mx: "np_max_axis1 arr = Inr (map ?mx (rows arr))"
    using assms by (simp add: np_max_axis1_def)
  have "softmax arr
      = Inr (arr\<lparr>rows := map (\<lambda>r. map (\<lambda>x. exp (x - ?mx r)
                / sum_list (map (\<lambda>x. exp (x - ?mx r)) r)) r) (rows arr)\<rparr>)"
    by (simp add: softmax_def mx Let_def np_div_col_def np_sum_axis1_def np_exp_def
        np_sub_col_def zip_with_image zip_two_images comp_def)
  then show ?thesis
    by (simp only: shifted_softmax_row)
qed
section \<open>The control flow of \<open>aggregate_crops\<close>\<close>

lemma length_np_split: "length (np_split ary indices) = length indices + 1"
  by (simp add: np_split_def Let_def)

lemma number_of_sections: "length (butlast (np_cumsum splits)) + 1 = max 1 (length splits)"
proof -
  have "length (butlast (np_cumsum splits)) = length splits - 1"
    by (simp only: length_butlast np_cumsum_def length_cumsum_from)
  then show ?thesis by (cases splits) simp_all
qed

lemma aggregate_crops_Inr:
  assumes "aggregate_crops arr splits agg_func predictions = Inr v"
  shows "\<exists>a ys. (if predictions then softmax arr = Inr a else a = arr)
    \<and> agg_each agg_func (np_split a (butlast (np_cumsum splits))) = Inr ys \<and> v = Arr ys"
proof -
  from assms obtain a where a: "(if predictions then softmax arr else Inr arr) = Inr a"
    and r: "(case agg_each agg_func (np_split a (butlast (np_cumsum splits))) of
              Inl e \<Rightarrow> Inl e | Inr vs \<Rightarrow> np_array vs) = Inr v"
    by (auto simp: aggregate_crops_def split: sum.splits)
  from r obtain ys where ys: "agg_each agg_func (np_split a (butlast (np_cumsum splits))) = Inr ys"
    and n: "np_array ys = Inr v"
    by (auto split: sum.splits)
  from n have "v = Arr ys" by (rule np_array_Inr)
  with a ys show ?thesis by (auto split: if_splits)
qed

lemma aggregate_crops_example:
  "aggregate_crops \<lparr>ncols = 2, rows = [[0, 1], [0, 1], [1, 0]]\<rparr> [2, 1] np_max False
     = Inr (Arr [Scalar 0, Scalar 1])"
  by (simp add: aggregate_crops_def np_cumsum_def np_split_def py_slice_def column0_def
      np_max_def np_array_def Let_def numeral_2_eq_2)

text \<open>
  Claim C3, as amended. The functions the notebook defines contain control flow of their
  own. \<open>aggregate_crops\<close> evaluates a conditional on \<open>predictions\<close>: in exact
  arithmetic, on an array with at least one column, \<open>predictions=True\<close> aggregates the
  array in which every entry \<open>x\<close> of a row \<open>r\<close> is replaced by \<open>exp x\<close> over the sum
  of \<open>exp\<close> over \<open>r\<close>, in the way \<open>predictions=False\<close> aggregates the array as it is;
  on an array with no column it raises \<open>ValueError\<close>. Its comprehension is a loop over
  the sections cut by \<open>splits\<close>: an array returned has \<open>len(splits)\<close> entries, one
  entry when \<open>splits\<close> is empty, and with \<open>predictions=False\<close> entry \<open>i\<close> is what
  \<open>agg_func\<close> returns on column 0 of section \<open>i\<close>.
\<close>

theorem aggregate_crops_control_flow:
  "(0 < ncols arr \<longrightarrow>
      aggregate_crops arr splits agg_func True
        = aggregate_crops
            (arr\<lparr>rows := map (\<lambda>r. map (\<lambda>x. exp x / sum_list (map exp r)) r) (rows arr)\<rparr>)
            splits agg_func False)
   \<and> (ncols arr = 0 \<longrightarrow> aggregate_crops arr splits agg_func True = Inl ValueError)
   \<and> (\<forall>v. aggregate_crops arr splits agg_func predictions = Inr v
          \<longrightarrow> (\<exists>ys. v = Arr ys \<and> length ys = max 1 (length splits)))
   \<and> (\<forall>ys. aggregate_crops arr splits agg_func False = Inr (Arr ys)
          \<longrightarrow> (\<forall>i<length ys. \<exists>c.
                column0 (np_split arr (butlast (np_cumsum splits)) ! i) = Inr c
                \<and> agg_func c = Inr (ys ! i)))"
proof (intro conjI)
  show "0 < ncols arr \<longrightarrow>
      aggregate_crops arr splits agg_func True
        = aggregate_crops
            (arr\<lparr>rows := map (\<lambda>r. map (\<lambda>x. exp x / sum_list (map exp r)) r) (rows arr)\<rparr>)
            splits agg_func False"
    by (simp add: aggregate_crops_def softmax_closed_form)
  show "ncols arr = 0 \<longrightarrow> aggregate_crops arr splits agg_func True = Inl ValueError"
    by (simp add: aggregate_crops_def softmax_def np_max_axis1_def)
  show "\<forall>v. aggregate_crops arr splits agg_func predictions = Inr v
          \<longrightarrow> (\<exists>ys. v = Arr ys \<and> length ys = max 1 (length splits))"
  proof (intro allI impI)
    fix v
    assume "aggregate_crops arr splits agg_func predictions = Inr v"
    from aggregate_crops_Inr [OF this] obtain a ys
      where ys: "agg_each agg_func (np_split a (butlast (np_cumsum splits))) = Inr ys"
        and v: "v = Arr ys"
      by blast
    from ys have "length ys = length (np_split a (butlast (np_cumsum splits)))"
      by (simp add: agg_each_Inr_iff)
    then have "length ys = max 1 (length splits)"
      by (simp only: length_np_split number_of_sections)
    with v show "\<exists>ys. v = Arr ys \<and> length ys = max 1 (length splits)" by blast
  qed
  show "\<forall>ys. aggregate_crops arr splits agg_func False = Inr (Arr ys)
          \<longrightarrow> (\<forall>i<length ys. \<exists>c.
                column0 (np_split arr (butlast (np_cumsum splits)) ! i) = Inr c
                \<and> agg_func c = Inr (ys ! i))"
  proof (intro allI impI)
    fix ys i
    assume r: "aggregate_crops arr splits agg_func False = Inr (Arr ys)" and i: "i < length ys"
    from aggregate_crops_Inr [OF r] obtain a zs
      where a: "a = arr"
        and zs: "agg_each agg_func (np_split a (butlast (np_cumsum splits))) = Inr zs"
        and e: "Arr ys = Arr zs"
      by auto
    from e have "zs = ys" by simp
    with zs a have "agg_each agg_func (np_split arr (butlast (np_cumsum splits))) = Inr ys"
      by simp
    then have "length ys = length (np_split arr (butlast (np_cumsum splits)))"
      and "\<forall>i<length (np_split arr (butlast (np_cumsum splits))). \<exists>c.
              column0 (np_split arr (butlast (np_cumsum splits)) ! i) = Inr c
              \<and> agg_func c = Inr (ys ! i)"
      by (simp_all add: agg_each_Inr_iff)
    with i show "\<exists>c. column0 (np_split arr (butlast (np_cumsum splits)) ! i) = Inr c
        \<and> agg_func c = Inr (ys ! i)"
      by simp
  qed
qed

theorem aggregate_crops_control_flow_witness:
  "0 < ncols \<lparr>ncols = 2, rows = [[0, 0]]\<rparr>
   \<and> aggregate_crops \<lparr>ncols = 2, rows = [[0, 0]]\<rparr> [1] np_max True
       = Inr (Arr [Scalar (1 / 2)])
   \<and> length [Scalar (1 / 2)] = max 1 (length [1 :: int])
   \<and> ncols \<lparr>ncols = 0, rows = [[]]\<rparr> = 0
   \<and> aggregate_crops \<lparr>ncols = 0, rows = [[]]\<rparr> [1] np_max True = Inl ValueError
   \<and> aggregate_crops \<lparr>ncols = 2, rows = [[0, 1], [0, 1], [1, 0]]\<rparr> [2, 1] np_max False
       = Inr (Arr [Scalar 0, Scalar 1])
   \<and> length [Scalar 0, Scalar 1] = max 1 (length [2, 1 :: int])
   \<and> column0 (np_split \<lparr>ncols = 2, rows = [[0, 1], [0, 1], [1, 0]]\<rparr>
                (butlast (np_cumsum [2, 1])) ! 1) = Inr [1]
   \<and> np_max [1] = Inr ([Scalar 0, Scalar 1] ! 1)"
proof -
  let ?B = "\<lparr>ncols = 2, rows = [[0, 0 :: real]]\<rparr>"
  let ?Z = "\<lparr>ncols = 0, rows = [[] :: real list]\<rparr>"
  let ?A = "\<lparr>ncols = 2, rows = [[0, 1], [0, 1], [1, 0 :: real]]\<rparr>"
  have h1: "0 < ncols ?B" by simp
  note t1 = aggregate_crops_control_flow [of ?B "[1]" np_max True]
  from t1 h1 have "aggregate_crops ?B [1] np_max True
      = aggregate_crops
          (?B\<lparr>rows := map (\<lambda>r. map (\<lambda>x. exp x / sum_list (map exp r)) r) (rows ?B)\<rparr>)
          [1] np_max False"
    by blast
  also have "\<dots> = Inr (Arr [Scalar (1 / 2)])"
    by (simp add: aggregate_crops_def np_cumsum_def np_split_def py_slice_def column0_def
        np_max_def np_array_def Let_def)
  finally have g1: "aggregate_crops ?B [1] np_max True = Inr (Arr [Scalar (1 / 2)])" .
  with t1 have "\<exists>ys. Arr [Scalar (1 / 2)] = Arr ys \<and> length ys = max 1 (length [1 :: int])"
    by blast
  then have g2: "length [Scalar (1 / 2)] = max 1 (length [1 :: int])" by auto
  have h3: "ncols ?Z = 0" by simp
  from aggregate_crops_control_flow [of ?Z "[1]" np_max True] h3
  have g3: "aggregate_crops ?Z [1] np_max True = Inl ValueError" by blast
  note t4 = aggregate_crops_control_flow [of ?A "[2, 1]" np_max False]
  note g4 = aggregate_crops_example
  from t4 g4 have "\<exists>ys. Arr [Scalar 0, Scalar 1] = Arr ys \<and> length ys = max 1 (length [2, 1 :: int])"
    by blast
  then have g5: "length [Scalar 0, Scalar 1] = max 1 (length [2, 1 :: int])" by auto
  have "(1::nat) < length [Scalar 0, Scalar 1]" by simp
  with t4 g4 obtain c where c: "column0 (np_split ?A (butlast (np_cumsum [2, 1])) ! 1) = Inr c"
    and m: "np_max c = Inr ([Scalar 0, Scalar 1] ! 1)"
    by blast
  have "column0 (np_split ?A (butlast (np_cumsum [2, 1])) ! 1) = Inr [1]"
    by (simp add: np_cumsum_def np_split_def py_slice_def column0_def Let_def numeral_2_eq_2)
  with c have c1: "c = [1]" by simp
  from c c1 have g6: "column0 (np_split ?A (butlast (np_cumsum [2, 1])) ! 1) = Inr [1]" by simp
  from m c1 have g7: "np_max [1] = Inr ([Scalar 0, Scalar 1] ! 1)" by simp
  show ?thesis
    by (intro conjI h1 g1 g2 h3 g3 g4 g5 g6 g7)
qed

text \<open>
  The claim as first stated has no conditional of the notebook evaluate. On the one-row
  array \<open>[[0, 0]]\<close>, with the aggregation that returns the column itself, the branch
  taken decides the result: the softmax entry \<open>1/2\<close> when \<open>predictions\<close> is true,
  the entry \<open>0\<close> of the array when it is false.
\<close>

theorem aggregate_crops_branch_counterexample:
  "aggregate_crops \<lparr>ncols = 2, rows = [[0, 0]]\<rparr> [1] (\<lambda>c. Inr (as_array c)) True
     = Inr (Arr [Arr [Scalar (1 / 2)]])
   \<and> aggregate_crops \<lparr>ncols = 2, rows = [[0, 0]]\<rparr> [1] (\<lambda>c. Inr (as_array c)) False
     = Inr (Arr [Arr [Scalar 0]])"
proof -
  have s: "softmax \<lparr>ncols = 2, rows = [[0, 0]]\<rparr> = Inr \<lparr>ncols = 2, rows = [[1 / 2, 1 / 2]]\<rparr>"
    by (simp add: softmax_closed_form)
  show ?thesis
    by (simp add: aggregate_crops_def s np_cumsum_def np_split_def py_slice_def column0_def
        np_array_def as_array_def Let_def)
qed

section \<open>Errors pass through\<close>

lemma agg_each_first_failure:
  assumes "i < length blocks"
    and "\<forall>j<i. \<exists>c v. column0 (blocks ! j) = Inr c \<and> agg_func c = Inr v"
    and "column0 (blocks ! i) = Inl e \<or> (\<exists>c. column0 (blocks ! i) = Inr c \<and> agg_func c = Inl e)"
  shows "agg_each agg_func blocks = Inl e"
  using assms
proof (induction blocks arbitrary: i)
  case Nil
  then show ?case by simp
next
  case (Cons b blocks)
  show ?case
  proof (cases i)
    case 0
    with Cons.prems(3) show ?thesis by auto
  next
    case (Suc k)
    from Cons.prems(2) Suc obtain c v where b: "column0 b = Inr c" "agg_func c = Inr v"
      by fastforce
    from Cons.prems(1) Suc have k: "k < length blocks" by simp
    from Cons.prems(2) Suc
    have before: "\<forall>j<k. \<exists>c v. column0 (blocks ! j) = Inr c \<and> agg_func c = Inr v"
      by fastforce
    from Cons.prems(3) Suc
    have at: "column0 (blocks ! k) = Inl e
        \<or> (\<exists>c. column0 (blocks ! k) = Inr c \<and> agg_func c = Inl e)"
      by simp
    from Cons.IH [OF k before at] have "agg_each agg_func blocks = Inl e" .
    with b show ?thesis by simp
  qed
qed

lemma agg_each_failure_found:
  assumes "agg_each agg_func blocks = Inl e"
  shows "\<exists>i<length blocks.
      (\<forall>j<i. \<exists>c v. column0 (blocks ! j) = Inr c \<and> agg_func c = Inr v)
      \<and> (column0 (blocks ! i) = Inl e
           \<or> (\<exists>c. column0 (blocks ! i) = Inr c \<and> agg_func c = Inl e))"
  using assms
proof (induction blocks)
  case Nil
  then show ?case by simp
next
  case (Cons b blocks)
  let ?fails = "\<lambda>bs i. column0 (bs ! i) = Inl e
      \<or> (\<exists>c. column0 (bs ! i) = Inr c \<and> agg_func c = Inl e)"
  let ?fine = "\<lambda>bs i. \<forall>j<i. \<exists>c v. column0 (bs ! j) = Inr c \<and> agg_func c = Inr v"
  show ?case
  proof (cases "?fails (b # blocks) 0")
    case True
    then have "0 < length (b # blocks) \<and> ?fine (b # blocks) 0 \<and> ?fails (b # blocks) 0"
      by simp
    then show ?thesis by blast
  next
    case False
    with Cons.prems obtain c v where b: "column0 b = Inr c" "agg_func c = Inr v"
      and rest: "agg_each agg_func blocks = Inl e"
      by (auto split: sum.splits)
    from Cons.IH [OF rest] obtain i where i: "i < length blocks"
      and fine: "?fine blocks i" and fails: "?fails blocks i"
      by blast
    have "?fine (b # blocks) (Suc i)"
    proof (intro allI impI)
      fix j
      assume "j < Suc i"
      then show "\<exists>c v. column0 ((b # blocks) ! j) = Inr c \<and> agg_func c = Inr v"
        using b fine by (cases j) auto
    qed
    moreover have "?fails (b # blocks) (Suc i)" using fails by simp
    moreover have "Suc i < length (b # blocks)" using i by simp
    ultimately show ?thesis by blast
  qed
qed

lemma softmax_fails_iff: "(softmax arr = Inl e) = (np_max_axis1 arr = Inl e)"
  by (simp add: softmax_def Let_def split: sum.splits)

text \<open>
  Claim C4. None of the five functions of the notebook catches, masks or transforms an
  error: each of them fails exactly when one of the operations in it fails, the operations
  before it having succeeded, and then with the error of that operation. For
  \<open>get_trainable_variables\<close> and \<open>calc_metrics\<close> the operations are the lookup of the
  pipeline in the experiment and each method call after it; for \<open>center_flip\<close> the mean;
  for \<open>make_data\<close> the array of all segments and the repetition of the targets; for the
  comprehension of \<open>aggregate_crops\<close> the column access and the call of \<open>agg_func\<close>
  on the first section where one of them fails; for \<open>aggregate_crops\<close>, whether
  \<open>predictions\<close> is true or false, the row maximum of the softmax, the comprehension
  and the array of its results.
\<close>

theorem errors_propagate_unchanged:
  "((get_trainable_variables iteration experiment ppl model_name = Inl e1)
      = ((experiment ppl = None \<and> e1 = KeyError)
         \<or> (\<exists>u. experiment ppl = Some u
              \<and> (get_model_by_name (pipeline u) model_name = Inl e1
                   \<or> (\<exists>m. get_model_by_name (pipeline u) model_name = Inr m
                        \<and> get_number_of_trainable_vars m = Inl e1)))))
   \<and> ((calc_metrics iteration experiment ppl var_name = Inl e2)
      = ((experiment ppl = None \<and> e2 = KeyError)
         \<or> (\<exists>u. experiment ppl = Some u
              \<and> (get_variable (pipeline u) var_name = Inl e2
                   \<or> (\<exists>metrics. get_variable (pipeline u) var_name = Inr metrics
                        \<and> evaluate metrics ''f1_score'' = Inl e2)))))
   \<and> ((center_flip r sig = Inl e3) = (np_mean sig = Inl e3))
   \<and> ((make_data b = Inl e4)
      = (np_array (concat (signal b)) = Inl e4
         \<or> ((\<exists>a. np_array (concat (signal b)) = Inr a)
              \<and> np_repeat (target b) (map length (signal b)) = Inl e4)))
   \<and> ((agg_each agg_func blocks = Inl e5)
      = (\<exists>i<length blocks.
           (\<forall>j<i. \<exists>c v. column0 (blocks ! j) = Inr c \<and> agg_func c = Inr v)
           \<and> (column0 (blocks ! i) = Inl e5
                \<or> (\<exists>c. column0 (blocks ! i) = Inr c \<and> agg_func c = Inl e5))))
   \<and> ((aggregate_crops arr splits agg_func predictions = Inl e6)
      = ((predictions \<and> np_max_axis1 arr = Inl e6)
         \<or> (\<exists>a. (if predictions then softmax arr = Inr a else a = arr)
              \<and> (agg_each agg_func (np_split a (butlast (np_cumsum splits))) = Inl e6
                   \<or> (\<exists>vs. agg_each agg_func (np_split a (butlast (np_cumsum splits))) = Inr vs
                        \<and> np_array vs = Inl e6)))))"
proof (intro conjI)
  show "(get_trainable_variables iteration experiment ppl model_name = Inl e1)
      = ((experiment ppl = None \<and> e1 = KeyError)
         \<or> (\<exists>u. experiment ppl = Some u
              \<and> (get_model_by_name (pipeline u) model_name = Inl e1
                   \<or> (\<exists>m. get_model_by_name (pipeline u) model_name = Inr m
                        \<and> get_number_of_trainable_vars m = Inl e1))))"
    by (auto simp: get_trainable_variables_def split: option.splits sum.splits)
  show "(calc_metrics iteration experiment ppl var_name = Inl e2)
      = ((experiment ppl = None \<and> e2 = KeyError)
         \<or> (\<exists>u. experiment ppl = Some u
              \<and> (get_variable (pipeline u) var_name = Inl e2
                   \<or> (\<exists>metrics. get_variable (pipeline u) var_name = Inr metrics
                        \<and> evaluate metrics ''f1_score'' = Inl e2))))"
    by (auto simp: calc_metrics_def split: option.splits sum.splits)
  show "(center_flip r sig = Inl e3) = (np_mean sig = Inl e3)"
    by (auto simp: center_flip_def Let_def split: sum.splits)
  show "(make_data b = Inl e4)
      = (np_array (concat (signal b)) = Inl e4
         \<or> ((\<exists>a. np_array (concat (signal b)) = Inr a)
              \<and> np_repeat (target b) (map length (signal b)) = Inl e4))"
    by (auto simp: make_data_def Let_def split: sum.splits)
  show "(agg_each agg_func blocks = Inl e5)
      = (\<exists>i<length blocks.
           (\<forall>j<i. \<exists>c v. column0 (blocks ! j) = Inr c \<and> agg_func c = Inr v)
           \<and> (column0 (blocks ! i) = Inl e5
                \<or> (\<exists>c. column0 (blocks ! i) = Inr c \<and> agg_func c = Inl e5)))"
    using agg_each_failure_found [of agg_func blocks e5]
      agg_each_first_failure [of _ blocks agg_func e5]
    by blast
  show "(aggregate_crops arr splits agg_func predictions = Inl e6)
      = ((predictions \<and> np_max_axis1 arr = Inl e6)
         \<or> (\<exists>a. (if predictions then softmax arr = Inr a else a = arr)
              \<and> (agg_each agg_func (np_split a (butlast (np_cumsum splits))) = Inl e6
                   \<or> (\<exists>vs. agg_each agg_func (np_split a (butlast (np_cumsum splits))) = Inr vs
                        \<and> np_array vs = Inl e6))))"
  proof (cases predictions)
    case True
    then show ?thesis
      by (auto simp: aggregate_crops_def softmax_fails_iff [symmetric] split: sum.splits)
  next
    case False
    then show ?thesis
      by (auto simp: aggregate_crops_def split: sum.splits)
  qed
qed

theorem errors_propagate_unchanged_witness:
  "np_mean [] = Inl ZeroDivisionError
   \<and> center_flip 0 [] = Inl ZeroDivisionError
   \<and> np_array [as_array [1, 2], as_array [3]] = Inl ValueError
   \<and> make_data \<lparr>signal = [[as_array [1, 2]], [as_array [3]]], target = [''A'', ''NO'']\<rparr>
       = Inl ValueError
   \<and> np_array [Scalar 1, Scalar 2, Scalar 3] = Inr (Arr [Scalar 1, Scalar 2, Scalar 3])
   \<and> np_repeat [''A'', ''NO''] [1, 1, 1] = Inl ValueError
   \<and> make_data \<lparr>signal = [[Scalar 1], [Scalar 2], [Scalar 3]], target = [''A'', ''NO'']\<rparr>
       = Inl ValueError
   \<and> column0 \<lparr>ncols = 1, rows = [[1]]\<rparr> = Inr [1]
   \<and> np_max [1] = Inr (Scalar 1)
   \<and> column0 \<lparr>ncols = 1, rows = []\<rparr> = Inr []
   \<and> np_max [] = Inl ValueError
   \<and> agg_each np_max [\<lparr>ncols = 1, rows = [[1]]\<rparr>, \<lparr>ncols = 1, rows = []\<rparr>] = Inl ValueError
   \<and> np_max_axis1 \<lparr>ncols = 0, rows = [[]]\<rparr> = Inl ValueError
   \<and> aggregate_crops \<lparr>ncols = 0, rows = [[]]\<rparr> [1] np_max True = Inl ValueError
   \<and> softmax \<lparr>ncols = 1, rows = [[1]]\<rparr> = Inr \<lparr>ncols = 1, rows = [[1]]\<rparr>
   \<and> np_split \<lparr>ncols = 1, rows = [[1]]\<rparr> (butlast (np_cumsum [1, 0]))
       = [\<lparr>ncols = 1, rows = [[1]]\<rparr>, \<lparr>ncols = 1, rows = []\<rparr>]
   \<and> aggregate_crops \<lparr>ncols = 1, rows = [[1]]\<rparr> [1, 0] np_max True = Inl ValueError
   \<and> aggregate_crops \<lparr>ncols = 1, rows = [[1]]\<rparr> [1, 0] np_max False = Inl ValueError
   \<and> agg_each (\<lambda>c. Inr (as_array c))
         (np_split \<lparr>ncols = 2, rows = [[0, 1], [0, 1], [1, 0]]\<rparr> (butlast (np_cumsum [2, 1])))
       = Inr [as_array [0, 0], as_array [1]]
   \<and> np_array [as_array [0, 0], as_array [1]] = Inl ValueError
   \<and> aggregate_crops \<lparr>ncols = 2, rows = [[0, 1], [0, 1], [1, 0]]\<rparr> [2, 1]
         (\<lambda>c. Inr (as_array c)) False
       = Inl ValueError
   \<and> get_trainable_variables (0 :: nat) (Map.empty :: string \<rightharpoonup> real exec_unit) ''train'' ''model''
       = Inl KeyError
   \<and> calc_metrics (0 :: nat) (Map.empty :: string \<rightharpoonup> real exec_unit) ''test'' ''metrics''
       = Inl KeyError
   \<and> get_trainable_variables (0 :: nat)
        [''train'' \<mapsto> \<lparr>pipeline = \<lparr>get_model_by_name = (\<lambda>n. Inl (External ''no model'')),
                                    get_variable = (\<lambda>n. Inl (External ''no variable''))\<rparr>\<rparr>
           :: real exec_unit]
        ''train'' ''model''
       = Inl (External ''no model'')
   \<and> get_trainable_variables (0 :: nat)
        [''train'' \<mapsto> \<lparr>pipeline = \<lparr>get_model_by_name =
                                      (\<lambda>n. Inr \<lparr>get_number_of_trainable_vars =
                                                    Inl (External ''no graph'')\<rparr>),
                                    get_variable = (\<lambda>n. Inl (External ''no variable''))\<rparr>\<rparr>
           :: real exec_unit]
        ''train'' ''model''
       = Inl (External ''no graph'')
   \<and> calc_metrics (0 :: nat)
        [''test'' \<mapsto> \<lparr>pipeline = \<lparr>get_model_by_name = (\<lambda>n. Inl (External ''no model'')),
                                   get_variable = (\<lambda>n. Inl (External ''no variable''))\<rparr>\<rparr>
           :: real exec_unit]
        ''test'' ''metrics''
       = Inl (External ''no variable'')
   \<and> calc_metrics (0 :: nat)
        [''test'' \<mapsto> \<lparr>pipeline = \<lparr>get_model_by_name = (\<lambda>n. Inl (External ''no model'')),
                                   get_variable =
                                     (\<lambda>n. Inr \<lparr>evaluate =
                                                   (\<lambda>k. Inl (External ''unknown metric''))\<rparr>)\<rparr>\<rparr>
           :: real exec_unit]
        ''test'' ''metrics''
       = Inl (External ''unknown metric'')"
proof -
  let ?rag = "\<lparr>signal = [[as_array [1, 2]], [as_array [3]]], target = [''A'', ''NO'']\<rparr>"
  let ?b = "\<lparr>signal = [[Scalar 1], [Scalar 2], [Scalar 3]], target = [''A'', ''NO'']\<rparr>"
  let ?z = "\<lparr>ncols = 0, rows = [[]]\<rparr>"
  let ?one = "\<lparr>ncols = 1, rows = [[1]]\<rparr>"
  let ?none = "\<lparr>ncols = 1, rows = []\<rparr>"
  let ?three = "\<lparr>ncols = 2, rows = [[0, 1], [0, 1], [1, 0]]\<rparr>"
  let ?id = "\<lambda>c. Inr (as_array c) :: error + ndarray"
  let ?pm = "\<lparr>get_model_by_name = (\<lambda>n. Inl (External ''no model'')),
             get_variable = (\<lambda>n. Inl (External ''no variable''))\<rparr> :: real pipeline_obj"
  let ?mo = "\<lparr>get_number_of_trainable_vars = Inl (External ''no graph'')\<rparr>"
  let ?pg = "\<lparr>get_model_by_name = (\<lambda>n. Inr ?mo),
             get_variable = (\<lambda>n. Inl (External ''no variable''))\<rparr> :: real pipeline_obj"
  let ?me = "\<lparr>evaluate = (\<lambda>k. Inl (External ''unknown metric''))\<rparr> :: real metrics_obj"
  let ?pe = "\<lparr>get_model_by_name = (\<lambda>n. Inl (External ''no model'')),
             get_variable = (\<lambda>n. Inr ?me)\<rparr> :: real pipeline_obj"
  note t = errors_propagate_unchanged
  note k3 = t [THEN conjunct2, THEN conjunct2, THEN conjunct1, THEN iffD2]
  note k4 = t [THEN conjunct2, THEN conjunct2, THEN conjunct2, THEN conjunct1, THEN iffD2]
  note k5 = t [THEN conjunct2, THEN conjunct2, THEN conjunct2, THEN conjunct2, THEN conjunct1,
      THEN iffD2]
  note k6 = t [THEN conjunct2, THEN conjunct2, THEN conjunct2, THEN conjunct2, THEN conjunct2,
      THEN iffD2]
  have h1: "np_mean [] = Inl ZeroDivisionError"
    by (simp add: np_mean_def)
  have g1: "center_flip 0 [] = Inl ZeroDivisionError"
    by (rule k3 [OF h1])
  have h2: "np_array [as_array [1, 2], as_array [3]] = Inl ValueError"
    by (simp add: np_array_def as_array_def)
  have g2: "make_data ?rag = Inl ValueError"
    by (rule k4) (simp add: h2)
  have h3a: "np_array [Scalar 1, Scalar 2, Scalar 3] = Inr (Arr [Scalar 1, Scalar 2, Scalar 3])"
    by (simp add: np_array_def)
  have h3b: "np_repeat [''A'', ''NO''] [1, 1, 1] = Inl ValueError"
    by (simp add: np_repeat_def)
  have g3: "make_data ?b = Inl ValueError"
    by (rule k4) (simp add: h3a np_repeat_def)
  have h4a: "column0 ?one = Inr [1]" "np_max [1] = Inr (Scalar 1)"
    by (simp_all add: column0_def np_max_def)
  have h4b: "column0 ?none = Inr []" "np_max [] = Inl ValueError"
    by (simp_all add: column0_def np_max_def)
  have h4: "\<exists>i<length [?one, ?none].
      (\<forall>j<i. \<exists>c v. column0 ([?one, ?none] ! j) = Inr c \<and> np_max c = Inr v)
      \<and> (column0 ([?one, ?none] ! i) = Inl ValueError
           \<or> (\<exists>c. column0 ([?one, ?none] ! i) = Inr c \<and> np_max c = Inl ValueError))"
  proof (intro exI [of _ 1] conjI)
    show "(1::nat) < length [?one, ?none]" by simp
    show "\<forall>j<1. \<exists>c v. column0 ([?one, ?none] ! j) = Inr c \<and> np_max c = Inr v"
      using h4a by simp
    show "column0 ([?one, ?none] ! 1) = Inl ValueError
        \<or> (\<exists>c. column0 ([?one, ?none] ! 1) = Inr c \<and> np_max c = Inl ValueError)"
      using h4b by simp
  qed
  have g4: "agg_each np_max [?one, ?none] = Inl ValueError"
    by (rule k5 [OF h4])
  have h5: "np_max_axis1 ?z = Inl ValueError"
    by (simp add: np_max_axis1_def)
  have g5: "aggregate_crops ?z [1] np_max True = Inl ValueError"
    by (rule k6) (simp add: h5)
  have s: "softmax ?one = Inr ?one"
    by (simp add: softmax_closed_form)
  have sp: "np_split ?one (butlast (np_cumsum [1, 0])) = [?one, ?none]"
    by (simp add: np_split_def np_cumsum_def py_slice_def Let_def numeral_2_eq_2)
  have g6: "aggregate_crops ?one [1, 0] np_max True = Inl ValueError"
    by (rule k6) (insert s sp g4, auto)
  have g7: "aggregate_crops ?one [1, 0] np_max False = Inl ValueError"
    by (rule k6) (insert sp g4, auto)
  have h8a: "agg_each ?id (np_split ?three (butlast (np_cumsum [2, 1])))
      = Inr [as_array [0, 0], as_array [1]]"
    by (simp add: np_split_def np_cumsum_def py_slice_def column0_def Let_def numeral_2_eq_2)
  have h8b: "np_array [as_array [0, 0], as_array [1]] = Inl ValueError"
    by (simp add: np_array_def as_array_def)
  have g8: "aggregate_crops ?three [2, 1] ?id False = Inl ValueError"
    by (rule k6) (simp add: h8a h8b)
  have g9a: "get_trainable_variables (0 :: nat) (Map.empty :: string \<rightharpoonup> real exec_unit)
      ''train'' ''model'' = Inl KeyError"
    by (rule errors_propagate_unchanged [THEN conjunct1, THEN iffD2]) simp
  have g9b: "calc_metrics (0 :: nat) (Map.empty :: string \<rightharpoonup> real exec_unit)
      ''test'' ''metrics'' = Inl KeyError"
    by (rule errors_propagate_unchanged [THEN conjunct2, THEN conjunct1, THEN iffD2]) simp
  have g10: "get_trainable_variables (0 :: nat) [''train'' \<mapsto> \<lparr>pipeline = ?pm\<rparr>]
      ''train'' ''model'' = Inl (External ''no model'')"
    by (rule errors_propagate_unchanged [THEN conjunct1, THEN iffD2]) simp
  have g11: "get_trainable_variables (0 :: nat) [''train'' \<mapsto> \<lparr>pipeline = ?pg\<rparr>]
      ''train'' ''model'' = Inl (External ''no graph'')"
    by (rule errors_propagate_unchanged [THEN conjunct1, THEN iffD2]) simp
  have g12: "calc_metrics (0 :: nat) [''test'' \<mapsto> \<lparr>pipeline = ?pm\<rparr>]
      ''test'' ''metrics'' = Inl (External ''no variable'')"
    by (rule errors_propagate_unchanged [THEN conjunct2, THEN conjunct1, THEN iffD2]) simp
  have g13: "calc_metrics (0 :: nat) [''test'' \<mapsto> \<lparr>pipeline = ?pe\<rparr>]
      ''test'' ''metrics'' = Inl (External ''unknown metric'')"
    by (rule errors_propagate_unchanged [THEN conjunct2, THEN conjunct1, THEN iffD2]) simp
  show ?thesis
    by (intro conjI h1 g1 h2 g2 h3a h3b g3 h4a h4b g4 h5 g5 s sp g6 g7 h8a h8b g8
        g9a g9b g10 g11 g12 g13)
qed

end
